theory Spec2Isabelle
  imports
    Main
    "HOL-Library.Multiset"
    "HOL-Library.List_Lexorder"
    "HOL-Library.Char_ord"
begin

section \<open>Data model\<close>

text \<open>
  Strings are byte lists and are compared byte by byte, as Go's \<^verbatim>\<open><\<close> on strings does
  (the lexicographic order on \<open>char list\<close>).
\<close>

text \<open>
  Modelled from the spec: the type declarations of package \<^verbatim>\<open>v2\<close> and the event type
  constants are not among the source files. An event carries a timestamp, a type tag and a
  payload whose shape depends on the tag. The source compares the tag with
  \<^verbatim>\<open>v2.EventTypeFixed\<close> and \<^verbatim>\<open>v2.EventTypeFalsePositiveDetermination\<close> and reads the payload
  through a type assertion, so the tag is a string and the payload an \<^verbatim>\<open>interface{}\<close>:
  nothing in the types ties them together, and the model keeps both fields independent.
  Timestamps are instants on a line, here \<open>int\<close> with \<open>0\<close> for Go's zero time.
\<close>

datatype event_type =
    EventTypeFixed
  | EventTypeFalsePositiveDetermination
  | EventTypeOther string  \<comment> \<open>any other tag, the empty tag of a zero event included\<close>

datatype event_data =
    NoData  \<comment> \<open>a nil payload\<close>
  | Fixed string  \<comment> \<open>\<^verbatim>\<open>v2.Fixed{FixedVersion}\<close>\<close>
  | FalsePositiveDetermination string
  | OtherData string

record Event =
  Timestamp :: int
  Type :: event_type
  Data :: event_data

text \<open>
  Modelled from the spec: the declaration of \<^verbatim>\<open>Request\<close> is not among the source files. These
  are the fields \<^verbatim>\<open>Create\<close> and \<^verbatim>\<open>Update\<close> read.
\<close>

record Request =
  Package :: string
  VulnerabilityID :: string
  Aliases :: "string list"
  Event :: Event

text \<open>
  Modelled from the spec: the declarations of \<^verbatim>\<open>v2.Advisory\<close>, \<^verbatim>\<open>v2.Advisories\<close>,
  \<^verbatim>\<open>v2.Package\<close> and \<^verbatim>\<open>v2.Document\<close> are not among the source files. These are the fields
  the source reads and writes.
\<close>

record Advisory =
  ID :: string
  Aliases :: "string list"
  Events :: "Event list"

type_synonym Advisories = "Advisory list"

record Package =
  Name :: string

record Document =
  SchemaVersion :: string
  Package :: Package
  Advisories :: Advisories

datatype field = FieldPackage | FieldVulnerabilityID | FieldEvent | FieldAliases

text \<open>
  Every error the modelled functions return, and the two run-time panics the exporter's
  body can raise. The wrapping errors of \<^verbatim>\<open>fmt.Errorf("...: %w", err)\<close> keep the wrapped error.
\<close>

datatype error =
    InvalidRequest "field list"
  | CannotCreate nat string
  | CannotUpdate nat string
  | AdvisoryAlreadyExists string string
  | AdvisoryDoesNotExist string
  | UnableToCreateAdvisory string string error
  | UnableToAddEntry string string error
  | UnableToUpdateSchemaVersion string error
  | ErrNoPackageSecurityData
  | NotFound
  | Conflict
  | AlreadyExists string
  | WriteFailed
  | PanicTypeAssertion
  | PanicIndexOutOfRange

section \<open>The document index\<close>

text \<open>
  Modelled from the spec: \<^verbatim>\<open>configs.Index\<close> is not among the source files. An index holds its
  documents in order, each under its file name: \<open>entries\<close> are the documents it has loaded,
  which \<^verbatim>\<open>Create\<close> and \<^verbatim>\<open>Update\<close> keep equal to the files. \<open>pending\<close> is the environment of
  the index: the outcomes of the write attempts still to come (\<open>True\<close>: the write goes
  through), an exhausted list meaning that every further write succeeds.
\<close>

record Index =
  entries :: "(string \<times> Document) list"
  pending :: "bool list"

text \<open>
  Modelled from the spec: \<^verbatim>\<open>Index.Select\<close> is not among the source files. It returns a view
  over all documents: the list of their file names, reads going to the index the view was
  taken from.
\<close>

definition Select :: "Index \<Rightarrow> string list" where
  "Select index = map fst (entries index)"

text \<open>
  Modelled from the spec: \<^verbatim>\<open>Selection.WhereName\<close> is not among the source files. It narrows a
  selection to the documents whose package name is the given one.
\<close>

definition WhereName :: "Index \<Rightarrow> string list \<Rightarrow> string \<Rightarrow> string list" where
  "WhereName index selection name =
     filter (\<lambda>path. case map_of (entries index) path of
                       None \<Rightarrow> False
                     | Some doc \<Rightarrow> Name (Package doc) = name) selection"

text \<open>
  Modelled from the spec: \<^verbatim>\<open>Selection.Len\<close> is not among the source files. It is the number
  of documents selected.
\<close>

definition Len :: "string list \<Rightarrow> nat" where
  "Len selection = length selection"

text \<open>
  Modelled from the spec: \<^verbatim>\<open>Selection.Configurations\<close> is not among the source files. It
  yields the documents of the selection of all documents, in index order. The spec has the
  selection be an immutable snapshot: the documents it yields are the caller's own, and what
  is done to them does not reach the index.
\<close>

definition Configurations :: "Index \<Rightarrow> Document list" where
  "Configurations index = map snd (entries index)"

text \<open>
  Modelled from the spec: \<^verbatim>\<open>v2.NewAdvisoriesSectionUpdater\<close> and
  \<^verbatim>\<open>v2.NewSchemaVersionSectionUpdater\<close> are not among the source files. An updater computes
  one section of a document from the document: the advisories through the transform it is
  given, or the schema version it is given.
\<close>

datatype section_updater =
    AdvisoriesSectionUpdater "Document \<Rightarrow> error + Advisories"
  | SchemaVersionSectionUpdater string

text \<open>
  Modelled from the spec: how the index applies an updater is not among the source files. It
  merges the section the updater returns back into the document, and returns the error of the
  transform unchanged.
\<close>

fun applyUpdater :: "section_updater \<Rightarrow> Document \<Rightarrow> error + Document" where
  "applyUpdater (AdvisoriesSectionUpdater transform) doc =
     (case transform doc of
        Inl e \<Rightarrow> Inl e
      | Inr advisories \<Rightarrow> Inr (doc\<lparr>Advisories := advisories\<rparr>))"
| "applyUpdater (SchemaVersionSectionUpdater version) doc = Inr (doc\<lparr>SchemaVersion := version\<rparr>)"

text \<open>
  Modelled from the spec: the validation of the index is not among the source files. These
  are the invariants it checks again after a transform: unique advisory IDs and sorted order.
\<close>

definition validDocument :: "Document \<Rightarrow> bool" where
  "validDocument doc \<longleftrightarrow>
     distinct (map ID (Advisories doc)) \<and> sorted (map ID (Advisories doc))"

text \<open>
  Modelled from the spec: the storage of the index is not among the source files. Storing a
  document under a file name replaces the whole document of that name, or adds the file.
\<close>

definition put :: "string \<Rightarrow> Document \<Rightarrow> (string \<times> Document) list \<Rightarrow> (string \<times> Document) list" where
  "put path doc es =
     (if path \<in> set (map fst es)
      then map (\<lambda>(p, d). if p = path then (p, doc) else (p, d)) es
      else es @ [(path, doc)])"

text \<open>
  Modelled from the spec: the write of the index is not among the source files. A write
  replaces the whole document or, when it fails, leaves the file as it was. The outcome of
  the attempt is the head of \<open>pending\<close>.
\<close>

definition writeDocument :: "string \<Rightarrow> Document \<Rightarrow> Index \<Rightarrow> error option \<times> Index" where
  "writeDocument path doc index =
     (case pending index of
        [] \<Rightarrow> (None, index\<lparr>entries := put path doc (entries index)\<rparr>)
      | True # rest \<Rightarrow> (None, index\<lparr>entries := put path doc (entries index), pending := rest\<rparr>)
      | False # rest \<Rightarrow> (Some WriteFailed, index\<lparr>pending := rest\<rparr>))"

text \<open>
  Modelled from the spec: \<^verbatim>\<open>Index.Create\<close> is not among the source files. It fails with
  \<^verbatim>\<open>AlreadyExists\<close> when a document is already addressable by the file name, and otherwise
  persists the document and adds it to the index.
\<close>

definition IndexCreate :: "string \<Rightarrow> Document \<Rightarrow> Index \<Rightarrow> error option \<times> Index" where
  "IndexCreate path doc index =
     (if path \<in> set (map fst (entries index)) then (Some (AlreadyExists path), index)
      else writeDocument path doc index)"

text \<open>
  Modelled from the spec: the loop of \<^verbatim>\<open>Selection.Update\<close> is not among the source files. For
  every selected document it reads the document again, applies the transform, whose error it
  returns unchanged, merges the section, fails with \<^verbatim>\<open>Conflict\<close> when the invariants do not
  hold, and persists.
\<close>

fun updateEach :: "section_updater \<Rightarrow> string list \<Rightarrow> Index \<Rightarrow> error option \<times> Index" where
  "updateEach u [] index = (None, index)"
| "updateEach u (path # rest) index =
     (case map_of (entries index) path of
        None \<Rightarrow> (Some NotFound, index)
      | Some doc \<Rightarrow>
          (case applyUpdater u doc of
             Inl e \<Rightarrow> (Some e, index)
           | Inr doc' \<Rightarrow>
               if \<not> validDocument doc' then (Some Conflict, index)
               else
                 (case writeDocument path doc' index of
                    (Some e, index') \<Rightarrow> (Some e, index')
                  | (None, index') \<Rightarrow> updateEach u rest index')))"

text \<open>
  Modelled from the spec: \<^verbatim>\<open>Selection.Update\<close> is not among the source files. It fails with
  \<^verbatim>\<open>NotFound\<close> when the selection is empty and updates every selected document otherwise.
\<close>

definition SelectionUpdate :: "section_updater \<Rightarrow> string list \<Rightarrow> Index \<Rightarrow> error option \<times> Index" where
  "SelectionUpdate u selection index =
     (if selection = [] then (Some NotFound, index) else updateEach u selection index)"

section \<open>Creating and updating advisories\<close>

text \<open>
  Modelled from the spec: \<^verbatim>\<open>Advisories.Get\<close> is not among the source files. It looks an
  advisory up by ID: the first of that ID, if any.
\<close>

definition Advisories_Get :: "Advisories \<Rightarrow> string \<Rightarrow> Advisory option" where
  "Advisories_Get advisories vulnID = find (\<lambda>adv. ID adv = vulnID) advisories"

text \<open>
  Modelled from the spec: \<^verbatim>\<open>Advisories.Update\<close> is not among the source files. It replaces
  the advisory of the given ID in the list: the first of that ID, if any.
\<close>

fun Advisories_Update :: "Advisories \<Rightarrow> string \<Rightarrow> Advisory \<Rightarrow> Advisories" where
  "Advisories_Update [] vulnID advisory = []"
| "Advisories_Update (adv # rest) vulnID advisory =
     (if ID adv = vulnID then advisory # rest
      else adv # Advisories_Update rest vulnID advisory)"

text \<open>
  Modelled from the spec: the \<^verbatim>\<open>sort.Interface\<close> of \<^verbatim>\<open>v2.Advisories\<close> is not among the
  source files. The spec has the advisories sorted by ID. \<^verbatim>\<open>sort.Sort\<close> promises no order
  among equal IDs; \<open>sort_key\<close> keeps theirs, and the two agree on every list whose IDs are
  distinct.
\<close>

definition sort_Sort :: "Advisories \<Rightarrow> Advisories" where
  "sort_Sort advisories = sort_key ID advisories"

text \<open>
  Modelled from the spec: how a request is known to carry no event is not among the source
  files. The event a request does not set is Go's zero value: zero time, empty tag, nil
  payload.
\<close>

definition IsZero :: "Event \<Rightarrow> bool" where
  "IsZero e \<longleftrightarrow> Timestamp e = 0 \<and> Type e = EventTypeOther [] \<and> Data e = NoData"

text \<open>
  Modelled from the spec: \<^verbatim>\<open>Request.Validate\<close> is not among the source files. The spec has
  it check that the package name and the vulnerability ID are present, that there is an
  initial event and that the aliases are well-formed, and fail with \<^verbatim>\<open>InvalidRequest\<close>
  listing the fields at fault. What makes an alias well-formed is the parameter \<open>aliasOK\<close>.
\<close>

definition Validate :: "(string \<Rightarrow> bool) \<Rightarrow> Request \<Rightarrow> error option" where
  "Validate aliasOK req =
     (let bad =
        (if Request.Package req = [] then [FieldPackage] else []) @
        (if VulnerabilityID req = [] then [FieldVulnerabilityID] else []) @
        (if IsZero (Event req) then [FieldEvent] else []) @
        (if list_all aliasOK (Request.Aliases req) then [] else [FieldAliases])
      in if bad = [] then None else Some (InvalidRequest bad))"

text \<open>
  \<^verbatim>\<open>createAdvisoryConfig\<close>, \<^verbatim>\<open>Create\<close> and \<^verbatim>\<open>Update\<close> of \<^verbatim>\<open>pkg/advisory\<close>. Each returns its
  error, if any, and the index as it leaves it. \<open>schemaVersion\<close> stands for the constant
  \<^verbatim>\<open>v2.SchemaVersion\<close>, whose value is not among the source files.
\<close>

definition createAdvisoryConfig :: "string \<Rightarrow> Index \<Rightarrow> Request \<Rightarrow> error option \<times> Index" where
  "createAdvisoryConfig schemaVersion documents req =
     (let newAdvisoryID = VulnerabilityID req;
          newAdvisory = \<lparr>ID = newAdvisoryID, Aliases = Request.Aliases req, Events = [Event req]\<rparr>
      in IndexCreate (Request.Package req @ ''.advisories.yaml'')
           \<lparr>SchemaVersion = schemaVersion,
            Package = \<lparr>Name = Request.Package req\<rparr>,
            Advisories = [newAdvisory]\<rparr>
           documents)"

text \<open>The function \<^verbatim>\<open>Create\<close> hands to \<^verbatim>\<open>v2.NewAdvisoriesSectionUpdater\<close>.\<close>

definition createTransform :: "Request \<Rightarrow> Document \<Rightarrow> error + Advisories" where
  "createTransform req doc =
     (let newAdvisoryID = VulnerabilityID req in
      if Advisories_Get (Advisories doc) newAdvisoryID \<noteq> None
      then Inl (AdvisoryAlreadyExists newAdvisoryID (Request.Package req))
      else
        let advisories = Advisories doc;
            newAdvisory = \<lparr>ID = newAdvisoryID, Aliases = Request.Aliases req, Events = [Event req]\<rparr>;
            advisories = advisories @ [newAdvisory]
        in Inr (sort_Sort advisories))"

definition Create :: "(string \<Rightarrow> bool) \<Rightarrow> string \<Rightarrow> Request \<Rightarrow> Index \<Rightarrow> error option \<times> Index" where
  "Create aliasOK schemaVersion req index =
     (case Validate aliasOK req of
        Some err \<Rightarrow> (Some err, index)
      | None \<Rightarrow>
          let documents = WhereName index (Select index) (Request.Package req);
              count = Len documents
          in
          if count = 0 then createAdvisoryConfig schemaVersion index req
          else if count = 1 then
            let newAdvisoryID = VulnerabilityID req;
                u = AdvisoriesSectionUpdater (createTransform req)
            in
            (case SelectionUpdate u documents index of
               (Some err, index') \<Rightarrow>
                 (Some (UnableToCreateAdvisory newAdvisoryID (Request.Package req) err), index')
             | (None, index') \<Rightarrow>
                 (case SelectionUpdate (SchemaVersionSectionUpdater schemaVersion) documents index' of
                    (Some err, index'') \<Rightarrow>
                      (Some (UnableToUpdateSchemaVersion (Request.Package req) err), index'')
                  | (None, index'') \<Rightarrow> (None, index'')))
          else (Some (CannotCreate count (Request.Package req)), index))"

text \<open>The function \<^verbatim>\<open>Update\<close> hands to \<^verbatim>\<open>v2.NewAdvisoriesSectionUpdater\<close>.\<close>

definition updateTransform :: "Request \<Rightarrow> Document \<Rightarrow> error + Advisories" where
  "updateTransform req doc =
     (let vulnID = VulnerabilityID req;
          advisories = Advisories doc
      in
      case Advisories_Get advisories vulnID of
        None \<Rightarrow> Inl (AdvisoryDoesNotExist vulnID)
      | Some adv \<Rightarrow>
          let adv = adv\<lparr>Events := Events adv @ [Event req]\<rparr>;
              advisories = Advisories_Update advisories vulnID adv
          in Inr (sort_Sort advisories))"

definition Update :: "string \<Rightarrow> Request \<Rightarrow> Index \<Rightarrow> error option \<times> Index" where
  "Update schemaVersion req index =
     (let vulnID = VulnerabilityID req;
          documents = WhereName index (Select index) (Request.Package req);
          count = Len documents
      in
      if count \<noteq> 1 then (Some (CannotUpdate count (Request.Package req)), index)
      else
        let u = AdvisoriesSectionUpdater (updateTransform req) in
        (case SelectionUpdate u documents index of
           (Some err, index') \<Rightarrow>
             (Some (UnableToAddEntry vulnID (Request.Package req) err), index')
         | (None, index') \<Rightarrow>
             (case SelectionUpdate (SchemaVersionSectionUpdater schemaVersion) documents index' of
                (Some err, index'') \<Rightarrow>
                  (Some (UnableToUpdateSchemaVersion (Request.Package req) err), index'')
              | (None, index'') \<Rightarrow> (None, index''))))"

section \<open>The security database exporter\<close>

text \<open>
  Modelled from the spec: the type declarations of package \<^verbatim>\<open>secdb\<close> are not among the source
  files. These are the fields \<^verbatim>\<open>BuildSecurityDatabase\<close> fills, the name and the secfixes of
  \<^verbatim>\<open>PackageEntry.Pkg\<close> side by side. \<^verbatim>\<open>Secfixes\<close> is a Go map from a version key to the
  list of vulnerability IDs: an association list with one pair for each key, in the order in
  which the keys were first written (an order the Go map does not have).
\<close>

type_synonym Secfixes = "(string \<times> string list) list"

record PackageEntry =
  PkgName :: string
  PkgSecfixes :: Secfixes

record Database =
  APKURL :: string
  Archs :: "string list"
  Repo :: string
  URLPrefix :: string
  Packages :: "PackageEntry list"

record BuildSecurityDatabaseOptions =
  AdvisoryDocIndices :: "Index list"
  OptURLPrefix :: string
  OptArchs :: "string list"
  OptRepo :: string

definition apkURL :: string where
  "apkURL = ''{{urlprefix}}/{{reponame}}/{{arch}}/{{pkg.name}}-{{pkg.ver}}.apk''"

text \<open>\<^verbatim>\<open>secfixes[key] = append(secfixes[key], vulnID)\<close>\<close>

fun appendTo :: "string \<Rightarrow> string \<Rightarrow> Secfixes \<Rightarrow> Secfixes" where
  "appendTo key vulnID [] = [(key, [vulnID])]"
| "appendTo key vulnID ((k, ids) # secfixes) =
     (if key = k then (k, ids @ [vulnID]) # secfixes
      else (k, ids) # appendTo key vulnID secfixes)"

text \<open>
  Modelled from the spec: \<^verbatim>\<open>Advisory.SortedEvents\<close> is not among the source files. The spec
  has it sort a copy of the events by timestamp, ties keeping their insertion order: the
  stable insertion sort \<open>sort_key\<close>.
\<close>

definition SortedEvents :: "Advisory \<Rightarrow> Event list" where
  "SortedEvents advisory = sort_key Timestamp (Events advisory)"

text \<open>Indexing a Go slice: a panic outside the bounds.\<close>

definition index_at :: "'a list \<Rightarrow> int \<Rightarrow> error + 'a" where
  "index_at xs i =
     (if 0 \<le> i \<and> i < int (length xs) then Inr (xs ! nat i) else Inl PanicIndexOutOfRange)"

text \<open>
  The \<^verbatim>\<open>switch latest.Type\<close> of the exporter. \<open>NAK\<close> stands for the constant \<^verbatim>\<open>secdb.NAK\<close>,
  whose value is not among the source files: it is a parameter of the exporter. The type
  assertion \<^verbatim>\<open>latest.Data.(v2.Fixed)\<close> panics on any other payload.
\<close>

definition switchLatest :: "string \<Rightarrow> string \<Rightarrow> Event \<Rightarrow> Secfixes \<Rightarrow> error + Secfixes" where
  "switchLatest NAK vulnID latest secfixes =
     (case Type latest of
        EventTypeFixed \<Rightarrow>
          (case Data latest of
             Fixed version \<Rightarrow> Inr (appendTo version vulnID secfixes)
           | _ \<Rightarrow> Inl PanicTypeAssertion)
      | EventTypeFalsePositiveDetermination \<Rightarrow> Inr (appendTo NAK vulnID secfixes)
      | EventTypeOther _ \<Rightarrow> Inr secfixes)"

text \<open>The body of the loop over a document's advisories.\<close>

definition advisoryBody :: "string \<Rightarrow> Advisory \<Rightarrow> Secfixes \<Rightarrow> error + Secfixes" where
  "advisoryBody NAK advisory secfixes =
     (if length (Events advisory) = 0 then Inr secfixes
      else
        let sortedEvents = SortedEvents advisory in
        case index_at sortedEvents (int (length (Events advisory)) - 1) of
          Inl e \<Rightarrow> Inl e
        | Inr latest \<Rightarrow> switchLatest NAK (ID advisory) latest secfixes)"

text \<open>The loop over a document's advisories; a panic ends it.\<close>

fun advisoriesLoop :: "string \<Rightarrow> Advisory list \<Rightarrow> Secfixes \<Rightarrow> error + Secfixes" where
  "advisoriesLoop NAK [] secfixes = Inr secfixes"
| "advisoriesLoop NAK (advisory # rest) secfixes =
     (case advisoryBody NAK advisory secfixes of
        Inl e \<Rightarrow> Inl e
      | Inr secfixes' \<Rightarrow> advisoriesLoop NAK rest secfixes')"

text \<open>
  The body of the loop over an index's documents. \<open>doc\<close> is the loop's copy of a document of
  the snapshot that \<^verbatim>\<open>Configurations\<close> returned, and \<^verbatim>\<open>sort.Slice\<close> sorts \<^verbatim>\<open>doc.Advisories\<close> in
  place, in the array behind that document of the snapshot. The body returns the document
  of the snapshot as it leaves it, next to the package entry it contributes, if any.
  \<^verbatim>\<open>sort.Slice\<close> promises no order among equal IDs; \<open>sort_key\<close> keeps theirs, and the two
  agree on every list whose IDs are distinct.
\<close>

definition documentBody :: "string \<Rightarrow> Document \<Rightarrow> Document \<times> (error + PackageEntry option)" where
  "documentBody NAK doc =
     (if length (Advisories doc) = 0 then (doc, Inr None)
      else
        let doc' = doc\<lparr>Advisories := sort_key ID (Advisories doc)\<rparr> in
        case advisoriesLoop NAK (Advisories doc') [] of
          Inl e \<Rightarrow> (doc', Inl e)
        | Inr secfixes \<Rightarrow>
            if length secfixes = 0 then (doc', Inr None)
            else (doc', Inr (Some \<lparr>PkgName = Name (Package doc'), PkgSecfixes = secfixes\<rparr>)))"

text \<open>
  The loop over the snapshot \<^verbatim>\<open>index.Select().Configurations()\<close>. It returns the snapshot as
  it leaves it: the documents it reached, sorted, and the others as they were.
\<close>

fun documentsLoop ::
  "string \<Rightarrow> Document list \<Rightarrow> PackageEntry list
     \<Rightarrow> Document list \<times> (error + PackageEntry list)" where
  "documentsLoop NAK [] indexPackageEntries = ([], Inr indexPackageEntries)"
| "documentsLoop NAK (doc # rest) indexPackageEntries =
     (case documentBody NAK doc of
        (doc', Inl e) \<Rightarrow> (doc' # rest, Inl e)
      | (doc', Inr None) \<Rightarrow>
          (case documentsLoop NAK rest indexPackageEntries of
             (rest', r) \<Rightarrow> (doc' # rest', r))
      | (doc', Inr (Some pe)) \<Rightarrow>
          (case documentsLoop NAK rest (indexPackageEntries @ [pe]) of
             (rest', r) \<Rightarrow> (doc' # rest', r)))"

text \<open>
  The memory the export works on: the indices the options point to, and the snapshots taken
  of them, one for each index the export reached.
\<close>

record Memory =
  Indices :: "Index list"
  Snapshots :: "Document list list"

text \<open>
  The loop over the indices. It calls \<^verbatim>\<open>Select\<close> and \<^verbatim>\<open>Configurations\<close> on an index and
  nothing else, and works on the snapshot it gets. An index that yields no package entry
  ends the export with \<^verbatim>\<open>ErrNoPackageSecurityData\<close>. The loop returns the memory as it leaves
  it.
\<close>

fun indicesLoop ::
  "string \<Rightarrow> Index list \<Rightarrow> PackageEntry list \<Rightarrow> Memory \<times> (error + PackageEntry list)" where
  "indicesLoop NAK [] packageEntries = (\<lparr>Indices = [], Snapshots = []\<rparr>, Inr packageEntries)"
| "indicesLoop NAK (index # rest) packageEntries =
     (case documentsLoop NAK (Configurations index) [] of
        (snapshot, Inl e) \<Rightarrow> (\<lparr>Indices = index # rest, Snapshots = [snapshot]\<rparr>, Inl e)
      | (snapshot, Inr indexPackageEntries) \<Rightarrow>
          if length indexPackageEntries = 0
          then (\<lparr>Indices = index # rest, Snapshots = [snapshot]\<rparr>,
                Inl ErrNoPackageSecurityData)
          else
            (case indicesLoop NAK rest (packageEntries @ indexPackageEntries) of
               (memory, r) \<Rightarrow>
                 (\<lparr>Indices = index # Indices memory,
                   Snapshots = snapshot # Snapshots memory\<rparr>, r)))"

text \<open>
  \<^verbatim>\<open>BuildSecurityDatabase\<close> returns the memory as it leaves it and either the error or the
  database value that it hands to \<^verbatim>\<open>json.MarshalIndent\<close>.
\<close>

definition BuildSecurityDatabase ::
  "string \<Rightarrow> BuildSecurityDatabaseOptions \<Rightarrow> Memory \<times> (error + Database)" where
  "BuildSecurityDatabase NAK opts =
     (case indicesLoop NAK (AdvisoryDocIndices opts) [] of
        (memory, Inl e) \<Rightarrow> (memory, Inl e)
      | (memory, Inr packageEntries) \<Rightarrow>
          (memory,
           Inr \<lparr>APKURL = apkURL, Archs = OptArchs opts, Repo = OptRepo opts,
                URLPrefix = OptURLPrefix opts, Packages = packageEntries\<rparr>))"

section \<open>Notions used in the statements\<close>

text \<open>
  The payload of the latest event fits its tag: an advisory without events, or one whose
  latest event is not tagged \<^verbatim>\<open>Fixed\<close> or carries a \<^verbatim>\<open>v2.Fixed\<close> payload.
\<close>

definition latestFixedHasVersion :: "Advisory \<Rightarrow> bool" where
  "latestFixedHasVersion advisory \<longleftrightarrow>
     Events advisory = [] \<or>
     (let latest = last (SortedEvents advisory)
      in Type latest \<noteq> EventTypeFixed \<or> (case Data latest of Fixed _ \<Rightarrow> True | _ \<Rightarrow> False))"

text \<open>Reading a Go map of slices: \<^verbatim>\<open>secfixes[key]\<close>, nil for a key that is not there.\<close>

definition secfixesOf :: "Secfixes \<Rightarrow> string \<Rightarrow> string list" where
  "secfixesOf secfixes key = (case map_of secfixes key of None \<Rightarrow> [] | Some ids \<Rightarrow> ids)"


text \<open>The package entries one index contributes.\<close>

definition indexPackageEntries :: "string \<Rightarrow> Index \<Rightarrow> error + PackageEntry list" where
  "indexPackageEntries NAK index = snd (documentsLoop NAK (Configurations index) [])"


text \<open>The index without its advisories that have no event.\<close>

definition dropEventless :: "Index \<Rightarrow> Index" where
  "dropEventless index =
     index\<lparr>entries :=
       map (\<lambda>(path, doc). (path, doc\<lparr>Advisories := filter (\<lambda>a. Events a \<noteq> []) (Advisories doc)\<rparr>))
         (entries index)\<rparr>"

text \<open>The outcome of the next write attempt, and the index once the attempt is made.\<close>

definition nextWriteSucceeds :: "Index \<Rightarrow> bool" where
  "nextWriteSucceeds index = (case pending index of [] \<Rightarrow> True | ok # _ \<Rightarrow> ok)"

definition afterAttempt :: "Index \<Rightarrow> Index" where
  "afterAttempt index = index\<lparr>pending := tl (pending index)\<rparr>"

text \<open>
  The two transactions that \<^verbatim>\<open>Create\<close>, on an existing document, and \<^verbatim>\<open>Update\<close> run one
  after the other on the selected document, in one expression: the error, whether the first
  transaction went through, and the index afterwards.
\<close>

definition transactions ::
  "(Document \<Rightarrow> error + Advisories) \<Rightarrow> string \<Rightarrow> string \<Rightarrow> Document \<Rightarrow> Index
     \<Rightarrow> (error option \<times> bool) \<times> Index" where
  "transactions transform version path doc index =
     (case transform doc of
        Inl e \<Rightarrow> ((Some e, False), index)
      | Inr advisories \<Rightarrow>
          let doc1 = doc\<lparr>Advisories := advisories\<rparr> in
          if \<not> validDocument doc1 then ((Some Conflict, False), index)
          else if \<not> nextWriteSucceeds index then ((Some WriteFailed, False), afterAttempt index)
          else
            let index1 = (afterAttempt index)\<lparr>entries := put path doc1 (entries index)\<rparr> in
            if \<not> nextWriteSucceeds index1 then ((Some WriteFailed, True), afterAttempt index1)
            else ((None, True),
                  (afterAttempt index1)\<lparr>entries :=
                     put path (doc1\<lparr>SchemaVersion := version\<rparr>) (entries index1)\<rparr>))"

section \<open>Example data\<close>

text \<open>Concrete events, advisories and documents on which the theorems below are exercised.\<close>

definition fixedEvent :: "int \<Rightarrow> string \<Rightarrow> Event" where
  "fixedEvent t version = \<lparr>Timestamp = t, Type = EventTypeFixed, Data = Fixed version\<rparr>"

definition falsePositiveEvent :: "int \<Rightarrow> Event" where
  "falsePositiveEvent t =
     \<lparr>Timestamp = t, Type = EventTypeFalsePositiveDetermination,
      Data = FalsePositiveDetermination ''vulnerable-code-not-included-in-package''\<rparr>"

definition pendingEvent :: "int \<Rightarrow> Event" where
  "pendingEvent t =
     \<lparr>Timestamp = t, Type = EventTypeOther ''pending-upstream-fix'', Data = OtherData ''note''\<rparr>"

definition historyAdvisory :: Advisory where
  "historyAdvisory =
     \<lparr>ID = ''CVE-2024-0001'', Aliases = [],
      Events = [fixedEvent 5 ''8.4.0'', falsePositiveEvent 7, fixedEvent 7 ''8.5.0'',
                pendingEvent 3]\<rparr>"

definition fixedAdvisory :: Advisory where
  "fixedAdvisory =
     \<lparr>ID = ''CVE-2024-0001'', Aliases = [''GHSA-aaaa-bbbb-cccc''], Events = [fixedEvent 5 ''8.4.0'']\<rparr>"

definition pendingAdvisory :: Advisory where
  "pendingAdvisory = \<lparr>ID = ''CVE-2024-0002'', Aliases = [], Events = [pendingEvent 4]\<rparr>"

definition falsePositiveAdvisory :: Advisory where
  "falsePositiveAdvisory =
     \<lparr>ID = ''CVE-2024-0003'', Aliases = [], Events = [fixedEvent 1 ''8.0.0'', falsePositiveEvent 2]\<rparr>"

definition eventlessAdvisory :: Advisory where
  "eventlessAdvisory = \<lparr>ID = ''CVE-2024-0004'', Aliases = [], Events = []\<rparr>"

definition curlDocument :: Document where
  "curlDocument =
     \<lparr>SchemaVersion = ''1'', Package = \<lparr>Name = ''curl''\<rparr>,
      Advisories = [fixedAdvisory, pendingAdvisory]\<rparr>"

definition unsortedDocument :: Document where
  "unsortedDocument =
     \<lparr>SchemaVersion = ''1'', Package = \<lparr>Name = ''curl''\<rparr>,
      Advisories = [pendingAdvisory, fixedAdvisory]\<rparr>"

definition eventlessDocument :: Document where
  "eventlessDocument =
     \<lparr>SchemaVersion = ''1'', Package = \<lparr>Name = ''zlib''\<rparr>, Advisories = [eventlessAdvisory]\<rparr>"

definition curlIndex :: Index where
  "curlIndex = \<lparr>entries = [(''curl.advisories.yaml'', curlDocument)], pending = []\<rparr>"

definition unsortedIndex :: Index where
  "unsortedIndex = \<lparr>entries = [(''curl.advisories.yaml'', unsortedDocument)], pending = []\<rparr>"

definition eventlessIndex :: Index where
  "eventlessIndex = \<lparr>entries = [(''zlib.advisories.yaml'', eventlessDocument)], pending = []\<rparr>"

definition exportOptions :: "Index list \<Rightarrow> BuildSecurityDatabaseOptions" where
  "exportOptions indices =
     \<lparr>AdvisoryDocIndices = indices, OptURLPrefix = ''https://packages.example'',
      OptArchs = [''x86_64''], OptRepo = ''os''\<rparr>"

definition mistaggedAdvisory :: Advisory where
  "mistaggedAdvisory =
     \<lparr>ID = ''CVE-2024-0005'', Aliases = [],
      Events = [\<lparr>Timestamp = 1, Type = EventTypeFixed, Data = NoData\<rparr>]\<rparr>"

definition emptyIndex :: Index where
  "emptyIndex = \<lparr>entries = [], pending = []\<rparr>"

definition createRequest :: Request where
  "createRequest =
     \<lparr>Request.Package = ''curl'', VulnerabilityID = ''CVE-2024-0001'',
      Request.Aliases = [''GHSA-aaaa-bbbb-cccc''], Event = fixedEvent 5 ''8.4.0''\<rparr>"

definition updateRequest :: Request where
  "updateRequest =
     \<lparr>Request.Package = ''curl'', VulnerabilityID = ''CVE-2024-0001'',
      Request.Aliases = [], Event = falsePositiveEvent 9\<rparr>"

definition zeroEventRequest :: Request where
  "zeroEventRequest =
     \<lparr>Request.Package = ''curl'', VulnerabilityID = ''CVE-2024-0001'', Request.Aliases = [],
      Event = \<lparr>Timestamp = 0, Type = EventTypeOther [], Data = NoData\<rparr>\<rparr>"

definition failingIndex :: Index where
  "failingIndex =
     \<lparr>entries = [(''curl.advisories.yaml'', curlDocument)], pending = [True, False]\<rparr>"

definition absentRequest :: Request where
  "absentRequest =
     \<lparr>Request.Package = ''curl'', VulnerabilityID = ''CVE-2024-9999'',
      Request.Aliases = [], Event = falsePositiveEvent 9\<rparr>"

definition secondRequest :: Request where
  "secondRequest =
     \<lparr>Request.Package = ''curl'', VulnerabilityID = ''CVE-2023-1234'',
      Request.Aliases = [], Event = fixedEvent 6 ''8.4.1''\<rparr>"

definition takenIndex :: Index where
  "takenIndex =
     \<lparr>entries = [(''curl.advisories.yaml'',
                   \<lparr>SchemaVersion = ''1'', Package = \<lparr>Name = ''libcurl''\<rparr>, Advisories = []\<rparr>)],
      pending = []\<rparr>"

lemmas example_defs =
  fixedEvent_def falsePositiveEvent_def pendingEvent_def historyAdvisory_def
  fixedAdvisory_def pendingAdvisory_def falsePositiveAdvisory_def eventlessAdvisory_def
  mistaggedAdvisory_def
  curlDocument_def unsortedDocument_def eventlessDocument_def
  curlIndex_def unsortedIndex_def eventlessIndex_def exportOptions_def

lemmas exporter_defs =
  BuildSecurityDatabase_def documentBody_def advisoryBody_def switchLatest_def
  SortedEvents_def index_at_def Configurations_def Let_def

lemmas request_defs =
  emptyIndex_def createRequest_def updateRequest_def zeroEventRequest_def failingIndex_def
  absentRequest_def secondRequest_def takenIndex_def

lemmas update_defs =
  Update_def Create_def createAdvisoryConfig_def IndexCreate_def SelectionUpdate_def
  writeDocument_def put_def WhereName_def Select_def Len_def updateTransform_def
  createTransform_def Advisories_Get_def sort_Sort_def validDocument_def Validate_def
  IsZero_def Let_def

section \<open>Writes to the index\<close>

lemma writeDocument_eq:
  "writeDocument path doc index =
     (if nextWriteSucceeds index
      then (None, (afterAttempt index)\<lparr>entries := put path doc (entries index)\<rparr>)
      else (Some WriteFailed, afterAttempt index))"
  by (cases index)
     (auto simp: writeDocument_def nextWriteSucceeds_def afterAttempt_def split: list.splits bool.splits)

lemma entries_afterAttempt: "entries (afterAttempt index) = entries index"
  by (simp add: afterAttempt_def)

lemma map_of_replace:
  "map_of (map (\<lambda>(q, d). if q = path then (q, doc) else (q, d)) es) p =
     (if p = path then (if path \<in> fst ` set es then Some doc else None) else map_of es p)"
  by (induction es) (auto simp: image_iff, force+)

lemma map_of_put:
  "map_of (put path doc es) p = (if p = path then Some doc else map_of es p)"
proof (cases "path \<in> set (map fst es)")
  case True
  then show ?thesis by (simp add: put_def map_of_replace)
next
  case False
  then have "map_of es path = None" by (simp add: map_of_eq_None_iff)
  with False show ?thesis by (auto simp: put_def map_add_def split: option.splits)
qed

lemma map_fst_put:
  "map fst (put path doc es) =
     (if path \<in> set (map fst es) then map fst es else map fst es @ [path])"
  by (auto simp: put_def split: prod.splits)

lemma filter_singleton_occurs_once:
  assumes "filter P xs = [p]"
  shows "filter (\<lambda>x. x = p) xs = [p]"
proof -
  from assms have "p \<in> set (filter P xs)" by simp
  then have "P p" by simp
  then have "filter (\<lambda>x. x = p) xs = filter (\<lambda>x. x = p) (filter P xs)"
    by (auto intro: filter_cong)
  with assms show ?thesis by simp
qed

lemma selection_single:
  assumes "Len (WhereName index (Select index) name) = 1"
  shows "\<exists>path doc. WhereName index (Select index) name = [path] \<and>
           map_of (entries index) path = Some doc \<and> Name (Package doc) = name \<and>
           path \<in> set (map fst (entries index))"
proof -
  from assms obtain path where sel: "WhereName index (Select index) name = [path]"
    by (auto simp: Len_def length_Suc_conv)
  then have "path \<in> set (filter (\<lambda>path. case map_of (entries index) path of
      None \<Rightarrow> False | Some doc \<Rightarrow> Name (Package doc) = name) (Select index))"
    by (simp add: WhereName_def)
  then show ?thesis using sel by (auto simp: Select_def split: option.splits)
qed

lemma updateEach_single:
  assumes "map_of (entries index) path = Some doc"
  shows "updateEach u [path] index =
     (case applyUpdater u doc of
        Inl e \<Rightarrow> (Some e, index)
      | Inr doc' \<Rightarrow>
          if \<not> validDocument doc' then (Some Conflict, index)
          else if nextWriteSucceeds index
          then (None, (afterAttempt index)\<lparr>entries := put path doc' (entries index)\<rparr>)
          else (Some WriteFailed, afterAttempt index))"
  using assms by (simp add: writeDocument_eq split: sum.splits)

lemma validDocument_SchemaVersion [simp]:
  "validDocument (doc\<lparr>SchemaVersion := v\<rparr>) = validDocument doc"
  by (simp add: validDocument_def)

lemma two_updates:
  assumes "map_of (entries index) path = Some doc"
  shows "(case SelectionUpdate (AdvisoriesSectionUpdater transform) [path] index of
            (Some err, index') \<Rightarrow> ((Some err, False), index')
          | (None, index') \<Rightarrow>
              (case SelectionUpdate (SchemaVersionSectionUpdater version) [path] index' of
                 (Some err, index'') \<Rightarrow> ((Some err, True), index'')
               | (None, index'') \<Rightarrow> ((None, True), index''))) =
         transactions transform version path doc index"
proof (cases "transform doc")
  case (Inl e)
  with assms show ?thesis
    by (simp add: SelectionUpdate_def transactions_def)
next
  case (Inr advisories)
  let ?doc1 = "doc\<lparr>Advisories := advisories\<rparr>"
  let ?index1 = "(afterAttempt index)\<lparr>entries := put path ?doc1 (entries index)\<rparr>"
  have second: "map_of (entries ?index1) path = Some ?doc1"
    by (simp add: map_of_put)
  show ?thesis
  proof (cases "validDocument ?doc1 \<and> nextWriteSucceeds index")
    case False
    with assms Inr show ?thesis
      by (auto simp: SelectionUpdate_def transactions_def writeDocument_eq)
  next
    case True
    with assms Inr have first:
      "SelectionUpdate (AdvisoriesSectionUpdater transform) [path] index = (None, ?index1)"
      by (simp add: SelectionUpdate_def writeDocument_eq)
    from True second have
      "SelectionUpdate (SchemaVersionSectionUpdater version) [path] ?index1 =
         (if nextWriteSucceeds ?index1
          then (None, (afterAttempt ?index1)\<lparr>entries :=
                  put path (?doc1\<lparr>SchemaVersion := version\<rparr>) (entries ?index1)\<rparr>)
          else (Some WriteFailed, afterAttempt ?index1))"
      by (simp add: SelectionUpdate_def writeDocument_eq)
    with first True Inr show ?thesis
      by (simp add: transactions_def Let_def)
  qed
qed

lemma Update_unfold:
  assumes sel: "WhereName index (Select index) (Request.Package req) = [path]"
    and doc: "map_of (entries index) path = Some doc"
  shows "Update version req index =
     (case transactions (updateTransform req) version path doc index of
        ((Some err, False), index') \<Rightarrow>
          (Some (UnableToAddEntry (VulnerabilityID req) (Request.Package req) err), index')
      | ((Some err, True), index') \<Rightarrow>
          (Some (UnableToUpdateSchemaVersion (Request.Package req) err), index')
      | ((None, _), index') \<Rightarrow> (None, index'))"
proof -
  have "Update version req index =
      (case (case SelectionUpdate (AdvisoriesSectionUpdater (updateTransform req)) [path] index of
            (Some err, index') \<Rightarrow> ((Some err, False), index')
          | (None, index') \<Rightarrow>
              (case SelectionUpdate (SchemaVersionSectionUpdater version) [path] index' of
                 (Some err, index'') \<Rightarrow> ((Some err, True), index'')
               | (None, index'') \<Rightarrow> ((None, True), index''))) of
        ((Some err, False), index') \<Rightarrow>
          (Some (UnableToAddEntry (VulnerabilityID req) (Request.Package req) err), index')
      | ((Some err, True), index') \<Rightarrow>
          (Some (UnableToUpdateSchemaVersion (Request.Package req) err), index')
      | ((None, _), index') \<Rightarrow> (None, index'))"
    using sel by (simp add: Update_def Len_def Let_def split: prod.splits option.splits)
  with two_updates [OF doc] show ?thesis by simp
qed

lemma Create_one_unfold:
  assumes ok: "Validate aliasOK req = None"
    and sel: "WhereName index (Select index) (Request.Package req) = [path]"
    and doc: "map_of (entries index) path = Some doc"
  shows "Create aliasOK version req index =
     (case transactions (createTransform req) version path doc index of
        ((Some err, False), index') \<Rightarrow>
          (Some (UnableToCreateAdvisory (VulnerabilityID req) (Request.Package req) err), index')
      | ((Some err, True), index') \<Rightarrow>
          (Some (UnableToUpdateSchemaVersion (Request.Package req) err), index')
      | ((None, _), index') \<Rightarrow> (None, index'))"
proof -
  have "Create aliasOK version req index =
      (case (case SelectionUpdate (AdvisoriesSectionUpdater (createTransform req)) [path] index of
            (Some err, index') \<Rightarrow> ((Some err, False), index')
          | (None, index') \<Rightarrow>
              (case SelectionUpdate (SchemaVersionSectionUpdater version) [path] index' of
                 (Some err, index'') \<Rightarrow> ((Some err, True), index'')
               | (None, index'') \<Rightarrow> ((None, True), index''))) of
        ((Some err, False), index') \<Rightarrow>
          (Some (UnableToCreateAdvisory (VulnerabilityID req) (Request.Package req) err), index')
      | ((Some err, True), index') \<Rightarrow>
          (Some (UnableToUpdateSchemaVersion (Request.Package req) err), index')
      | ((None, _), index') \<Rightarrow> (None, index'))"
    using ok sel by (simp add: Create_def Len_def Let_def split: prod.splits option.splits)
  with two_updates [OF doc] show ?thesis by simp
qed

lemma Create_zero_unfold:
  assumes ok: "Validate aliasOK req = None"
    and sel: "Len (WhereName index (Select index) (Request.Package req)) = 0"
  shows "Create aliasOK version req index =
     (let path = Request.Package req @ ''.advisories.yaml'';
          doc = \<lparr>SchemaVersion = version, Package = \<lparr>Name = Request.Package req\<rparr>,
                 Advisories = [\<lparr>ID = VulnerabilityID req, Aliases = Request.Aliases req,
                                Events = [Event req]\<rparr>]\<rparr>
      in if path \<in> set (Select index) then (Some (AlreadyExists path), index)
         else if nextWriteSucceeds index
         then (None, (afterAttempt index)\<lparr>entries := entries index @ [(path, doc)]\<rparr>)
         else (Some WriteFailed, afterAttempt index))"
  using ok sel
  by (simp add: Create_def createAdvisoryConfig_def IndexCreate_def writeDocument_eq Select_def
        put_def Let_def)

section \<open>The transforms of Create and Update\<close>

lemma Advisories_Get_Some:
  "Advisories_Get advs vulnID = Some adv \<Longrightarrow> ID adv = vulnID \<and> adv \<in> set advs"
  by (auto simp: Advisories_Get_def find_Some_iff)

lemma Advisories_Get_None:
  "Advisories_Get advs vulnID = None \<longleftrightarrow> vulnID \<notin> set (map ID advs)"
  by (auto simp: Advisories_Get_def find_None_iff)

lemma map_ID_Advisories_Update:
  "ID adv' = vulnID \<Longrightarrow> map ID (Advisories_Update advs vulnID adv') = map ID advs"
  by (induction advs) auto

lemma filter_others_Advisories_Update:
  "ID adv' = vulnID \<Longrightarrow>
     filter (\<lambda>a. ID a \<noteq> vulnID) (Advisories_Update advs vulnID adv') =
     filter (\<lambda>a. ID a \<noteq> vulnID) advs"
  by (induction advs) auto

lemma filter_target_Advisories_Update:
  "ID adv' = vulnID \<Longrightarrow> distinct (map ID advs) \<Longrightarrow> vulnID \<in> set (map ID advs) \<Longrightarrow>
     filter (\<lambda>a. ID a = vulnID) (Advisories_Update advs vulnID adv') = [adv']"
proof (induction advs)
  case Nil
  then show ?case by simp
next
  case (Cons a advs)
  show ?case
  proof (cases "ID a = vulnID")
    case True
    with Cons.prems have "\<forall>b\<in>set advs. ID b \<noteq> vulnID" by (auto simp: image_iff)
    then have "filter (\<lambda>a. ID a = vulnID) advs = []" by (simp add: filter_empty_conv)
    with True Cons.prems(1) show ?thesis by simp
  next
    case False
    with Cons show ?thesis by auto
  qed
qed

lemma find_filter_singleton: "filter P xs = [x] \<Longrightarrow> find P xs = Some x"
  by (induction xs) (auto split: if_splits)

lemma updateTransform_Inr:
  assumes "updateTransform req doc = Inr advisories"
  shows "\<exists>adv. Advisories_Get (Advisories doc) (VulnerabilityID req) = Some adv \<and>
           advisories = sort_key ID (Advisories_Update (Advisories doc) (VulnerabilityID req)
                                      (adv\<lparr>Events := Events adv @ [Event req]\<rparr>))"
  using assms by (auto simp: updateTransform_def sort_Sort_def Let_def split: option.splits)

lemma createTransform_Inr:
  assumes "createTransform req doc = Inr advisories"
  shows "VulnerabilityID req \<notin> set (map ID (Advisories doc)) \<and>
         advisories = sort_key ID (Advisories doc @
            [\<lparr>ID = VulnerabilityID req, Aliases = Request.Aliases req, Events = [Event req]\<rparr>])"
proof -
  from assms have none: "Advisories_Get (Advisories doc) (VulnerabilityID req) = None"
    by (auto simp: createTransform_def Let_def split: if_splits)
  with assms have "advisories = sort_key ID (Advisories doc @
      [\<lparr>ID = VulnerabilityID req, Aliases = Request.Aliases req, Events = [Event req]\<rparr>])"
    by (simp add: createTransform_def sort_Sort_def Let_def)
  with none show ?thesis by (simp add: Advisories_Get_None)
qed

lemma distinct_map_sort_key: "distinct (map f (sort_key g xs)) = distinct (map f xs)"
proof -
  have "mset (map f (sort_key g xs)) = mset (map f xs)" by simp
  then show ?thesis by (metis distinct_count_atmost_1 set_mset_mset)
qed

lemma transforms_sorted_unique:
  "(createTransform req doc = Inr advisories \<longrightarrow>
      sorted (map ID advisories) \<and>
      (distinct (map ID (Advisories doc)) \<longrightarrow> distinct (map ID advisories)))
   \<and> (updateTransform req doc = Inr advisories \<longrightarrow>
      sorted (map ID advisories) \<and>
      (distinct (map ID (Advisories doc)) \<longrightarrow> distinct (map ID advisories)))"
proof (intro conjI impI)
  assume c: "createTransform req doc = Inr advisories"
  from createTransform_Inr [OF c] show "sorted (map ID advisories)" by simp
  assume "distinct (map ID (Advisories doc))"
  with createTransform_Inr [OF c] show "distinct (map ID advisories)"
    by (simp add: distinct_map_sort_key)
next
  assume u: "updateTransform req doc = Inr advisories"
  from updateTransform_Inr [OF u] obtain adv
    where get: "Advisories_Get (Advisories doc) (VulnerabilityID req) = Some adv"
      and advs: "advisories = sort_key ID (Advisories_Update (Advisories doc) (VulnerabilityID req)
                                      (adv\<lparr>Events := Events adv @ [Event req]\<rparr>))"
    by auto
  from advs show "sorted (map ID advisories)" by simp
  assume "distinct (map ID (Advisories doc))"
  with advs Advisories_Get_Some [OF get] show "distinct (map ID advisories)"
    by (simp add: distinct_map_sort_key map_ID_Advisories_Update)
qed

lemma replace_absent:
  "path \<notin> fst ` set es \<Longrightarrow> map (\<lambda>(p, d). if p = path then (p, doc) else (p, d)) es = es"
  by (induction es) auto

lemma put_put: "put path d2 (put path d1 es) = put path d2 es"
proof (cases "path \<in> fst ` set es")
  case True
  then have "path \<in> set (map fst (put path d1 es))" by (simp add: map_fst_put)
  with True show ?thesis by (auto simp: put_def)
next
  case False
  then show ?thesis by (simp add: put_def replace_absent)
qed

lemma transactions_success:
  assumes "transactions transform version path doc index = ((None, b), index')"
  shows "\<exists>advisories. transform doc = Inr advisories \<and>
           validDocument (doc\<lparr>Advisories := advisories\<rparr>) \<and>
           entries index' =
             put path (doc\<lparr>Advisories := advisories, SchemaVersion := version\<rparr>) (entries index)"
  using assms
  by (auto simp: transactions_def Let_def put_put entries_afterAttempt
           split: sum.splits if_splits)

lemma WhereName_put_same:
  assumes sel: "WhereName index (Select index) name = [path]"
    and doc: "map_of (entries index) path = Some doc"
    and pkg: "Package doc' = Package doc"
    and es: "entries index' = put path doc' (entries index)"
  shows "WhereName index' (Select index') name = [path] \<and>
         map_of (entries index') path = Some doc' \<and> Select index' = Select index \<and>
         (\<forall>p. p \<noteq> path \<longrightarrow> map_of (entries index') p = map_of (entries index) p)"
proof -
  from doc have mem: "path \<in> set (map fst (entries index))"
    by (metis map_of_eq_None_iff option.distinct(1) set_map)
  with es have sel': "Select index' = Select index"
    by (simp add: Select_def map_fst_put)
  have "(case map_of (entries index') p of None \<Rightarrow> False | Some d \<Rightarrow> Name (Package d) = name) =
        (case map_of (entries index) p of None \<Rightarrow> False | Some d \<Rightarrow> Name (Package d) = name)" for p
    using es doc pkg by (simp add: map_of_put)
  then have "WhereName index' (Select index') name = WhereName index (Select index) name"
    by (simp add: WhereName_def sel')
  with sel sel' es show ?thesis by (simp add: map_of_put)
qed

lemma WhereName_new:
  assumes none: "Len (WhereName index (Select index) name) = 0"
    and fresh: "path \<notin> set (Select index)"
    and pkg: "Name (Package doc) = name"
    and es: "entries index' = entries index @ [(path, doc)]"
  shows "WhereName index' (Select index') name = [path] \<and>
         map_of (entries index') path = Some doc"
proof -
  let ?P = "\<lambda>p. case map_of (entries index) p of None \<Rightarrow> False
                     | Some d \<Rightarrow> Name (Package d) = name"
  let ?P' = "\<lambda>p. case map_of (entries index') p of None \<Rightarrow> False
                     | Some d \<Rightarrow> Name (Package d) = name"
  from fresh have absent: "map_of (entries index) path = None"
    by (simp add: Select_def map_of_eq_None_iff)
  have look: "map_of (entries index') p = (if p = path then Some doc else map_of (entries index) p)"
    for p
    using es absent by (auto simp: map_add_def split: option.splits)
  have "filter ?P' (map fst (entries index)) = filter ?P (map fst (entries index))"
    using fresh by (intro filter_cong) (auto simp: look Select_def)
  also have "\<dots> = []"
    using none unfolding Len_def WhereName_def Select_def by (simp only: length_0_conv)
  finally have old: "filter ?P' (map fst (entries index)) = []" .
  have new: "?P' path"
    using pkg by (simp add: look)
  have "Select index' = map fst (entries index) @ [path]"
    using es by (simp add: Select_def)
  then have "WhereName index' (Select index') name =
      filter ?P' (map fst (entries index)) @ filter ?P' [path]"
    unfolding WhereName_def by (simp only: filter_append)
  with old new have "WhereName index' (Select index') name = [path]"
    by simp
  then show ?thesis by (simp add: look)
qed

lemma transactions_valid:
  assumes sel: "WhereName index (Select index) name = [path]"
    and doc: "map_of (entries index) path = Some doc"
    and run: "transactions transform version path doc index = ((None, b), index')"
  shows "\<exists>advisories. transform doc = Inr advisories \<and>
           validDocument (doc\<lparr>Advisories := advisories\<rparr>) \<and>
           WhereName index' (Select index') name = [path] \<and>
           map_of (entries index') path =
             Some (doc\<lparr>Advisories := advisories, SchemaVersion := version\<rparr>) \<and>
           Select index' = Select index \<and>
           (\<forall>p. p \<noteq> path \<longrightarrow> map_of (entries index') p = map_of (entries index) p)"
proof -
  from transactions_success [OF run] obtain advisories
    where t: "transform doc = Inr advisories"
      and v: "validDocument (doc\<lparr>Advisories := advisories\<rparr>)"
      and es: "entries index' =
          put path (doc\<lparr>Advisories := advisories, SchemaVersion := version\<rparr>) (entries index)"
    by auto
  have "Package (doc\<lparr>Advisories := advisories, SchemaVersion := version\<rparr>) = Package doc"
    by simp
  from WhereName_put_same [OF sel doc this es] t v show ?thesis by blast
qed

lemma Update_success:
  assumes "Update version req index = (None, index')"
  shows "\<exists>path doc b. WhereName index (Select index) (Request.Package req) = [path] \<and>
           map_of (entries index) path = Some doc \<and>
           transactions (updateTransform req) version path doc index = ((None, b), index')"
proof -
  from assms have "Len (WhereName index (Select index) (Request.Package req)) = 1"
    by (auto simp: Update_def Let_def split: if_splits)
  from selection_single [OF this] obtain path doc
    where sel: "WhereName index (Select index) (Request.Package req) = [path]"
      and doc: "map_of (entries index) path = Some doc"
    by auto
  from assms Update_unfold [OF sel doc, of version]
  have "\<exists>b. transactions (updateTransform req) version path doc index = ((None, b), index')"
    by (auto split: prod.splits option.splits bool.splits)
  with sel doc show ?thesis by blast
qed

lemma Create_success:
  assumes "Create aliasOK version req index = (None, index')"
  shows "Validate aliasOK req = None \<and>
         (Len (WhereName index (Select index) (Request.Package req)) = 0 \<or>
          Len (WhereName index (Select index) (Request.Package req)) = 1)"
  using assms by (auto simp: Create_def Let_def split: option.splits if_splits)

lemma Create_zero_success:
  assumes v: "Validate aliasOK req = None"
    and zero: "Len (WhereName index (Select index) (Request.Package req)) = 0"
    and ok: "fst (Create aliasOK version req index) = None"
  shows "let path = Request.Package req @ ''.advisories.yaml'';
             doc = \<lparr>SchemaVersion = version, Package = \<lparr>Name = Request.Package req\<rparr>,
                    Advisories = [\<lparr>ID = VulnerabilityID req, Aliases = Request.Aliases req,
                                   Events = [Event req]\<rparr>]\<rparr>;
             index' = snd (Create aliasOK version req index)
         in entries index' = entries index @ [(path, doc)] \<and>
            map_of (entries index') path = Some doc \<and>
            WhereName index' (Select index') (Request.Package req) = [path]"
proof -
  let ?path = "Request.Package req @ ''.advisories.yaml''"
  let ?doc = "\<lparr>SchemaVersion = version, Package = \<lparr>Name = Request.Package req\<rparr>,
      Advisories = [\<lparr>ID = VulnerabilityID req, Aliases = Request.Aliases req,
                     Events = [Event req]\<rparr>]\<rparr>"
  let ?result = "Create aliasOK version req index"
  note unfold = Create_zero_unfold [OF v zero, of version]
  from ok unfold have fresh: "?path \<notin> set (Select index)" and w: "nextWriteSucceeds index"
    by (auto simp: Let_def split: if_splits)
  with unfold have es: "entries (snd ?result) = entries index @ [(?path, ?doc)]"
    by (simp add: Let_def)
  have "Name (Package ?doc) = Request.Package req" by simp
  from WhereName_new [OF zero fresh this es] es show ?thesis by (simp add: Let_def)
qed

section \<open>Creating the first advisory of a package\<close>

text \<open>
  C4. For a valid request on an index with no document for the package, \<^verbatim>\<open>Create\<close> hands
  \<^verbatim>\<open>Index.Create\<close> the file name \<^verbatim>\<open><package>.advisories.yaml\<close> and a document of the current
  schema version whose only advisory has the request's ID and aliases and the request's
  event as its only event. It succeeds exactly when no file has that name and the write goes
  through; the index then holds that document under that name, as the only document of the
  package. Otherwise the index keeps its documents. On an empty store it succeeds whenever
  the write does.
\<close>

theorem create_writes_new_document:
  assumes "Validate aliasOK req = None"
    and "Len (WhereName index (Select index) (Request.Package req)) = 0"
  shows "let path = Request.Package req @ ''.advisories.yaml'';
             doc = \<lparr>SchemaVersion = version, Package = \<lparr>Name = Request.Package req\<rparr>,
                    Advisories = [\<lparr>ID = VulnerabilityID req, Aliases = Request.Aliases req,
                                   Events = [Event req]\<rparr>]\<rparr>;
             result = Create aliasOK version req index
         in (fst result = None \<longleftrightarrow> path \<notin> set (Select index) \<and> nextWriteSucceeds index)
          \<and> (fst result = None \<longrightarrow>
                entries (snd result) = entries index @ [(path, doc)] \<and>
                map_of (entries (snd result)) path = Some doc \<and>
                WhereName (snd result) (Select (snd result)) (Request.Package req) = [path])
          \<and> (fst result \<noteq> None \<longrightarrow> entries (snd result) = entries index)
          \<and> (entries index = [] \<and> nextWriteSucceeds index \<longrightarrow>
                result = (None, (afterAttempt index)\<lparr>entries := [(path, doc)]\<rparr>))"
proof -
  let ?path = "Request.Package req @ ''.advisories.yaml''"
  let ?doc = "\<lparr>SchemaVersion = version, Package = \<lparr>Name = Request.Package req\<rparr>,
      Advisories = [\<lparr>ID = VulnerabilityID req, Aliases = Request.Aliases req,
                     Events = [Event req]\<rparr>]\<rparr>"
  let ?result = "Create aliasOK version req index"
  note unfold = Create_zero_unfold [OF assms, of version]
  have a: "fst ?result = None \<longleftrightarrow> ?path \<notin> set (Select index) \<and> nextWriteSucceeds index"
    using unfold by (auto simp: Let_def)
  have b: "entries (snd ?result) = entries index @ [(?path, ?doc)] \<and>
      map_of (entries (snd ?result)) ?path = Some ?doc \<and>
      WhereName (snd ?result) (Select (snd ?result)) (Request.Package req) = [?path]"
    if ok: "fst ?result = None"
    using Create_zero_success [OF assms ok] unfolding Let_def .
  have c: "fst ?result \<noteq> None \<longrightarrow> entries (snd ?result) = entries index"
    using unfold by (auto simp: Let_def entries_afterAttempt)
  have d: "entries index = [] \<and> nextWriteSucceeds index \<longrightarrow>
      ?result = (None, (afterAttempt index)\<lparr>entries := [(?path, ?doc)]\<rparr>)"
    using unfold by (auto simp: Let_def Select_def)
  from a b c d show ?thesis unfolding Let_def by blast
qed

theorem create_writes_new_document_witness:
  "Validate (\<lambda>alias. alias \<noteq> []) createRequest = None
   \<and> Len (WhereName emptyIndex (Select emptyIndex) (Request.Package createRequest)) = 0
   \<and> Create (\<lambda>alias. alias \<noteq> []) ''2'' createRequest emptyIndex =
        (None,
         \<lparr>entries =
            [(''curl.advisories.yaml'',
              \<lparr>SchemaVersion = ''2'', Package = \<lparr>Name = ''curl''\<rparr>,
               Advisories =
                 [\<lparr>ID = ''CVE-2024-0001'', Aliases = [''GHSA-aaaa-bbbb-cccc''],
                   Events = [fixedEvent 5 ''8.4.0'']\<rparr>]\<rparr>)],
          pending = []\<rparr>)
   \<and> Len (WhereName takenIndex (Select takenIndex) (Request.Package createRequest)) = 0
   \<and> fst (Create (\<lambda>alias. alias \<noteq> []) ''2'' createRequest takenIndex) =
        Some (AlreadyExists ''curl.advisories.yaml'')
   \<and> entries (snd (Create (\<lambda>alias. alias \<noteq> []) ''2'' createRequest takenIndex)) =
        entries takenIndex"
proof -
  have v: "Validate (\<lambda>alias. alias \<noteq> []) createRequest = None"
    by (simp add: createRequest_def fixedEvent_def Validate_def IsZero_def)
  have n: "Len (WhereName emptyIndex (Select emptyIndex) (Request.Package createRequest)) = 0"
    by (simp add: emptyIndex_def Len_def WhereName_def Select_def)
  have e: "entries emptyIndex = [] \<and> nextWriteSucceeds emptyIndex"
    by (simp add: emptyIndex_def nextWriteSucceeds_def)
  from create_writes_new_document [OF v n, of "''2''"] e
  have first: "Create (\<lambda>alias. alias \<noteq> []) ''2'' createRequest emptyIndex =
      (None, (afterAttempt emptyIndex)\<lparr>entries :=
         [(Request.Package createRequest @ ''.advisories.yaml'',
           \<lparr>SchemaVersion = ''2'', Package = \<lparr>Name = Request.Package createRequest\<rparr>,
            Advisories = [\<lparr>ID = VulnerabilityID createRequest,
                           Aliases = Request.Aliases createRequest,
                           Events = [Event createRequest]\<rparr>]\<rparr>)]\<rparr>)"
    unfolding Let_def by blast
  have n': "Len (WhereName takenIndex (Select takenIndex) (Request.Package createRequest)) = 0"
    by (simp add: takenIndex_def createRequest_def Len_def WhereName_def Select_def)
  have f: "fst (Create (\<lambda>alias. alias \<noteq> []) ''2'' createRequest takenIndex) =
      Some (AlreadyExists ''curl.advisories.yaml'')"
    by (simp add: request_defs example_defs update_defs)
  then have "fst (Create (\<lambda>alias. alias \<noteq> []) ''2'' createRequest takenIndex) \<noteq> None"
    by simp
  with create_writes_new_document [OF v n', of "''2''"]
  have second: "entries (snd (Create (\<lambda>alias. alias \<noteq> []) ''2'' createRequest takenIndex)) =
      entries takenIndex"
    unfolding Let_def by blast
  from v n first n' f second show ?thesis
    by (simp add: createRequest_def emptyIndex_def afterAttempt_def)
qed

section \<open>Updating an advisory\<close>

text \<open>
  C5. After a successful \<^verbatim>\<open>Update\<close>, the document of the package holds exactly one advisory
  of the request's ID: the advisory it held before with the request's event appended to its
  events, every earlier event in place. The other advisories are the same as before, as many
  as before, and every other file of the index is untouched.
\<close>

theorem update_appends_one_event:
  assumes "Update version req index = (None, index')"
  shows "\<exists>path doc doc' adv.
      WhereName index (Select index) (Request.Package req) = [path]
    \<and> map_of (entries index) path = Some doc
    \<and> map_of (entries index') path = Some doc'
    \<and> Advisories_Get (Advisories doc) (VulnerabilityID req) = Some adv
    \<and> Advisories_Get (Advisories doc') (VulnerabilityID req) =
        Some (adv\<lparr>Events := Events adv @ [Event req]\<rparr>)
    \<and> filter (\<lambda>a. ID a = VulnerabilityID req) (Advisories doc') =
        [adv\<lparr>Events := Events adv @ [Event req]\<rparr>]
    \<and> mset (filter (\<lambda>a. ID a \<noteq> VulnerabilityID req) (Advisories doc')) =
        mset (filter (\<lambda>a. ID a \<noteq> VulnerabilityID req) (Advisories doc))
    \<and> length (Advisories doc') = length (Advisories doc)
    \<and> Select index' = Select index
    \<and> (\<forall>p. p \<noteq> path \<longrightarrow> map_of (entries index') p = map_of (entries index) p)"
proof -
  let ?id = "VulnerabilityID req"
  from Update_success [OF assms] obtain path doc b
    where sel: "WhereName index (Select index) (Request.Package req) = [path]"
      and doc: "map_of (entries index) path = Some doc"
      and run: "transactions (updateTransform req) version path doc index = ((None, b), index')"
    by auto
  from transactions_valid [OF sel doc run] obtain advisories
    where t: "updateTransform req doc = Inr advisories"
      and v: "validDocument (doc\<lparr>Advisories := advisories\<rparr>)"
      and doc': "map_of (entries index') path =
          Some (doc\<lparr>Advisories := advisories, SchemaVersion := version\<rparr>)"
      and frame: "Select index' = Select index"
        "\<forall>p. p \<noteq> path \<longrightarrow> map_of (entries index') p = map_of (entries index) p"
    by auto
  from updateTransform_Inr [OF t] obtain adv
    where get: "Advisories_Get (Advisories doc) ?id = Some adv"
      and advs: "advisories = sort_key ID (Advisories_Update (Advisories doc) ?id
                                      (adv\<lparr>Events := Events adv @ [Event req]\<rparr>))"
    by auto
  let ?adv' = "adv\<lparr>Events := Events adv @ [Event req]\<rparr>"
  let ?upd = "Advisories_Update (Advisories doc) ?id ?adv'"
  from Advisories_Get_Some [OF get] have id: "ID ?adv' = ?id" by simp
  from Advisories_Get_Some [OF get] have mem: "?id \<in> set (map ID (Advisories doc))"
    by (metis imageI set_map)
  from v advs have "distinct (map ID ?upd)"
    by (simp add: validDocument_def distinct_map_sort_key)
  with id have dist: "distinct (map ID (Advisories doc))"
    by (simp add: map_ID_Advisories_Update)
  have target: "filter (\<lambda>a. ID a = ?id) advisories = [?adv']"
    using advs filter_target_Advisories_Update [OF id dist mem] by (simp add: filter_sort)
  have others: "mset (filter (\<lambda>a. ID a \<noteq> ?id) advisories) =
      mset (filter (\<lambda>a. ID a \<noteq> ?id) (Advisories doc))"
    using advs filter_others_Advisories_Update [OF id, of "Advisories doc"]
    by (simp add: filter_sort)
  have len: "length advisories = length (Advisories doc)"
    using advs map_ID_Advisories_Update [OF id, of "Advisories doc"]
    by (metis length_map length_sort)
  have get': "Advisories_Get advisories ?id = Some ?adv'"
    using find_filter_singleton [OF target] by (simp add: Advisories_Get_def)
  from sel doc doc' get get' target others len frame show ?thesis
    by (intro exI [of _ path] exI [of _ doc]
          exI [of _ "doc\<lparr>Advisories := advisories, SchemaVersion := version\<rparr>"] exI [of _ adv])
       simp
qed

theorem update_appends_one_event_witness:
  "Update ''2'' updateRequest curlIndex =
     (None,
      \<lparr>entries =
         [(''curl.advisories.yaml'',
           \<lparr>SchemaVersion = ''2'', Package = \<lparr>Name = ''curl''\<rparr>,
            Advisories =
              [\<lparr>ID = ''CVE-2024-0001'', Aliases = [''GHSA-aaaa-bbbb-cccc''],
                Events = [fixedEvent 5 ''8.4.0'', falsePositiveEvent 9]\<rparr>,
               pendingAdvisory]\<rparr>)],
       pending = []\<rparr>)
   \<and> (\<exists>doc' adv.
        map_of (entries (snd (Update ''2'' updateRequest curlIndex))) ''curl.advisories.yaml'' =
          Some doc'
      \<and> Advisories_Get (Advisories curlDocument) ''CVE-2024-0001'' = Some adv
      \<and> Advisories_Get (Advisories doc') ''CVE-2024-0001'' =
          Some (adv\<lparr>Events := Events adv @ [falsePositiveEvent 9]\<rparr>)
      \<and> filter (\<lambda>a. ID a \<noteq> ''CVE-2024-0001'') (Advisories doc') = [pendingAdvisory])"
proof -
  let ?index' = "\<lparr>entries =
         [(''curl.advisories.yaml'',
           \<lparr>SchemaVersion = ''2'', Package = \<lparr>Name = ''curl''\<rparr>,
            Advisories =
              [\<lparr>ID = ''CVE-2024-0001'', Aliases = [''GHSA-aaaa-bbbb-cccc''],
                Events = [fixedEvent 5 ''8.4.0'', falsePositiveEvent 9]\<rparr>,
               pendingAdvisory]\<rparr>)],
       pending = []\<rparr>"
  have run: "Update ''2'' updateRequest curlIndex = (None, ?index')"
    by (simp add: request_defs example_defs update_defs)
  have sel: "WhereName curlIndex (Select curlIndex) (Request.Package updateRequest) =
      [''curl.advisories.yaml'']"
    by (simp add: request_defs example_defs update_defs)
  have doc: "map_of (entries curlIndex) ''curl.advisories.yaml'' = Some curlDocument"
    by (simp add: curlIndex_def)
  have req: "VulnerabilityID updateRequest = ''CVE-2024-0001''"
      "Event updateRequest = falsePositiveEvent 9"
    by (simp_all add: updateRequest_def)
  from update_appends_one_event [OF run] sel doc
  obtain doc' adv where
    "map_of (entries ?index') ''curl.advisories.yaml'' = Some doc'"
    "Advisories_Get (Advisories curlDocument) ''CVE-2024-0001'' = Some adv"
    "Advisories_Get (Advisories doc') ''CVE-2024-0001'' =
        Some (adv\<lparr>Events := Events adv @ [falsePositiveEvent 9]\<rparr>)"
    unfolding req by auto
  moreover from this(1) have "filter (\<lambda>a. ID a \<noteq> ''CVE-2024-0001'') (Advisories doc') =
      [pendingAdvisory]"
    by (auto simp: pendingAdvisory_def)
  ultimately show ?thesis using run by auto
qed

text \<open>
  C6. The list each transform returns is sorted by ID, and its IDs are unique when those of
  the document were. After a successful \<^verbatim>\<open>Create\<close> or \<^verbatim>\<open>Update\<close>, the package has one
  document, whose advisory list is sorted by ID and has unique IDs.
\<close>

theorem advisories_sorted_and_unique:
  "(createTransform req doc = Inr advisories \<longrightarrow>
      sorted (map ID advisories) \<and>
      (distinct (map ID (Advisories doc)) \<longrightarrow> distinct (map ID advisories)))
   \<and> (updateTransform req doc = Inr advisories \<longrightarrow>
      sorted (map ID advisories) \<and>
      (distinct (map ID (Advisories doc)) \<longrightarrow> distinct (map ID advisories)))
   \<and> (Create aliasOK version req index = (None, index') \<or>
       Update version req index = (None, index') \<longrightarrow>
      (\<exists>path doc'. WhereName index' (Select index') (Request.Package req) = [path] \<and>
         map_of (entries index') path = Some doc' \<and>
         sorted (map ID (Advisories doc')) \<and> distinct (map ID (Advisories doc'))))"
proof -
  let ?goal = "\<exists>path doc'. WhereName index' (Select index') (Request.Package req) = [path] \<and>
         map_of (entries index') path = Some doc' \<and>
         sorted (map ID (Advisories doc')) \<and> distinct (map ID (Advisories doc'))"
  have two: ?goal
    if sel: "WhereName index (Select index) (Request.Package req) = [path]"
      and doc: "map_of (entries index) path = Some d"
      and run: "transactions transform version path d index = ((None, b), index')"
    for path d transform b
  proof -
    from transactions_valid [OF sel doc run] obtain advs
      where "validDocument (d\<lparr>Advisories := advs\<rparr>)"
        and "WhereName index' (Select index') (Request.Package req) = [path]"
        and "map_of (entries index') path = Some (d\<lparr>Advisories := advs, SchemaVersion := version\<rparr>)"
      by auto
    then show ?thesis by (auto simp: validDocument_def)
  qed
  have upd: ?goal if u: "Update version req index = (None, index')"
    using Update_success [OF u] two by blast
  have cre: ?goal if c: "Create aliasOK version req index = (None, index')"
  proof -
    from Create_success [OF c] have v: "Validate aliasOK req = None"
      and n: "Len (WhereName index (Select index) (Request.Package req)) = 0 \<or>
          Len (WhereName index (Select index) (Request.Package req)) = 1"
      by auto
    from n show ?thesis
    proof
      assume zero: "Len (WhereName index (Select index) (Request.Package req)) = 0"
      from c have "fst (Create aliasOK version req index) = None" by simp
      from c have s: "snd (Create aliasOK version req index) = index'" by simp
      from Create_zero_success [OF v zero \<open>fst (Create aliasOK version req index) = None\<close>]
      have facts: "map_of (entries index') (Request.Package req @ ''.advisories.yaml'') =
            Some \<lparr>SchemaVersion = version, Package = \<lparr>Name = Request.Package req\<rparr>,
                   Advisories = [\<lparr>ID = VulnerabilityID req, Aliases = Request.Aliases req,
                                  Events = [Event req]\<rparr>]\<rparr> \<and>
          WhereName index' (Select index') (Request.Package req) =
            [Request.Package req @ ''.advisories.yaml'']"
        unfolding Let_def s by blast
      have "sorted (map ID (Advisories \<lparr>SchemaVersion = version,
              Package = \<lparr>Name = Request.Package req\<rparr>,
              Advisories = [\<lparr>ID = VulnerabilityID req, Aliases = Request.Aliases req,
                             Events = [Event req]\<rparr>]\<rparr>)) \<and>
          distinct (map ID (Advisories \<lparr>SchemaVersion = version,
              Package = \<lparr>Name = Request.Package req\<rparr>,
              Advisories = [\<lparr>ID = VulnerabilityID req, Aliases = Request.Aliases req,
                             Events = [Event req]\<rparr>]\<rparr>))"
        by simp
      with facts show ?thesis by blast
    next
      assume "Len (WhereName index (Select index) (Request.Package req)) = 1"
      from selection_single [OF this] obtain path d
        where sel: "WhereName index (Select index) (Request.Package req) = [path]"
          and doc: "map_of (entries index) path = Some d"
        by auto
      from c Create_one_unfold [OF v sel doc, of version]
      have "\<exists>b. transactions (createTransform req) version path d index = ((None, b), index')"
        by (auto split: prod.splits option.splits bool.splits)
      with two [OF sel doc] show ?thesis by blast
    qed
  qed
  from transforms_sorted_unique [of req doc advisories] upd cre show ?thesis by blast
qed

theorem advisories_sorted_and_unique_witness:
  "updateTransform updateRequest curlDocument =
      Inr [\<lparr>ID = ''CVE-2024-0001'', Aliases = [''GHSA-aaaa-bbbb-cccc''],
             Events = [fixedEvent 5 ''8.4.0'', falsePositiveEvent 9]\<rparr>,
           pendingAdvisory]
   \<and> createTransform secondRequest curlDocument =
      Inr [\<lparr>ID = ''CVE-2023-1234'', Aliases = [], Events = [fixedEvent 6 ''8.4.1'']\<rparr>,
           fixedAdvisory, pendingAdvisory]
   \<and> distinct (map ID (Advisories curlDocument))
   \<and> sorted [''CVE-2024-0001'', ''CVE-2024-0002'']
   \<and> distinct [''CVE-2024-0001'', ''CVE-2024-0002'']
   \<and> sorted [''CVE-2023-1234'', ''CVE-2024-0001'', ''CVE-2024-0002'']
   \<and> distinct [''CVE-2023-1234'', ''CVE-2024-0001'', ''CVE-2024-0002'']
   \<and> fst (Update ''2'' updateRequest curlIndex) = None
   \<and> (\<exists>path doc'.
         WhereName (snd (Update ''2'' updateRequest curlIndex))
           (Select (snd (Update ''2'' updateRequest curlIndex))) ''curl'' = [path] \<and>
         map_of (entries (snd (Update ''2'' updateRequest curlIndex))) path = Some doc' \<and>
         sorted (map ID (Advisories doc')) \<and> distinct (map ID (Advisories doc')))
   \<and> fst (Create (\<lambda>alias. alias \<noteq> []) ''2'' secondRequest curlIndex) = None
   \<and> (\<exists>path doc'.
         WhereName (snd (Create (\<lambda>alias. alias \<noteq> []) ''2'' secondRequest curlIndex))
           (Select (snd (Create (\<lambda>alias. alias \<noteq> []) ''2'' secondRequest curlIndex)))
           ''curl'' = [path] \<and>
         map_of (entries (snd (Create (\<lambda>alias. alias \<noteq> []) ''2'' secondRequest curlIndex))) path =
           Some doc' \<and>
         sorted (map ID (Advisories doc')) \<and> distinct (map ID (Advisories doc')))"
proof -
  let ?updated = "[\<lparr>ID = ''CVE-2024-0001'', Aliases = [''GHSA-aaaa-bbbb-cccc''],
             Events = [fixedEvent 5 ''8.4.0'', falsePositiveEvent 9]\<rparr>,
           pendingAdvisory]"
  let ?created = "[\<lparr>ID = ''CVE-2023-1234'', Aliases = [], Events = [fixedEvent 6 ''8.4.1'']\<rparr>,
           fixedAdvisory, pendingAdvisory]"
  let ?u = "Update ''2'' updateRequest curlIndex"
  let ?c = "Create (\<lambda>alias. alias \<noteq> []) ''2'' secondRequest curlIndex"
  have t: "updateTransform updateRequest curlDocument = Inr ?updated"
    by (simp add: request_defs example_defs update_defs)
  have t': "createTransform secondRequest curlDocument = Inr ?created"
    by (simp add: request_defs example_defs update_defs)
  have d: "distinct (map ID (Advisories curlDocument))"
    by (simp add: example_defs)
  have u: "fst ?u = None"
    by (simp add: request_defs example_defs update_defs)
  then have run: "?u = (None, snd ?u)"
    by (metis prod.collapse)
  have c: "fst ?c = None"
    by (simp add: request_defs example_defs update_defs)
  then have run': "?c = (None, snd ?c)"
    by (metis prod.collapse)
  have p: "Request.Package updateRequest = ''curl''" "Request.Package secondRequest = ''curl''"
    by (simp_all add: updateRequest_def secondRequest_def)
  from advisories_sorted_and_unique
    [of updateRequest curlDocument ?updated "\<lambda>_. True" "''2''" curlIndex "snd ?u"] t d run p
  have first: "sorted (map ID ?updated) \<and> distinct (map ID ?updated)
     \<and> (\<exists>path doc'.
         WhereName (snd ?u) (Select (snd ?u)) ''curl'' = [path] \<and>
         map_of (entries (snd ?u)) path = Some doc' \<and>
         sorted (map ID (Advisories doc')) \<and> distinct (map ID (Advisories doc')))"
    by auto
  from advisories_sorted_and_unique
    [of secondRequest curlDocument ?created "\<lambda>alias. alias \<noteq> []" "''2''" curlIndex "snd ?c"]
    t' d run' p
  have second: "sorted (map ID ?created) \<and> distinct (map ID ?created)
     \<and> (\<exists>path doc'.
         WhereName (snd ?c) (Select (snd ?c)) ''curl'' = [path] \<and>
         map_of (entries (snd ?c)) path = Some doc' \<and>
         sorted (map ID (Advisories doc')) \<and> distinct (map ID (Advisories doc')))"
    by auto
  from t t' d u c first second show ?thesis
    by (simp add: pendingAdvisory_def fixedAdvisory_def)
qed

section \<open>The transactions of Update\<close>

lemma transactions_cases:
  "(\<exists>e. fst (transactions transform version path doc index) = (Some e, False) \<and>
        entries (snd (transactions transform version path doc index)) = entries index)
   \<or> (\<exists>advisories. transform doc = Inr advisories \<and>
        fst (transactions transform version path doc index) = (Some WriteFailed, True) \<and>
        entries (snd (transactions transform version path doc index)) =
          put path (doc\<lparr>Advisories := advisories\<rparr>) (entries index))
   \<or> (\<exists>advisories. transform doc = Inr advisories \<and>
        fst (transactions transform version path doc index) = (None, True) \<and>
        entries (snd (transactions transform version path doc index)) =
          put path (doc\<lparr>Advisories := advisories, SchemaVersion := version\<rparr>) (entries index))"
  by (cases "transform doc")
     (auto simp: transactions_def Let_def entries_afterAttempt put_put)

lemma updateTransform_absent:
  "Advisories_Get (Advisories doc) (VulnerabilityID req) = None \<Longrightarrow>
     updateTransform req doc = Inl (AdvisoryDoesNotExist (VulnerabilityID req))"
  by (simp add: updateTransform_def)

text \<open>
  C2, as the claim states it, fails. \<^verbatim>\<open>Update\<close> upgrades the schema version in a second
  transaction. When the write of that transaction fails, \<^verbatim>\<open>Update\<close> returns the error and
  the document holds the new event under its old schema version: neither fully updated nor
  unchanged.
\<close>

theorem update_not_one_transaction_counterexample:
  "entries failingIndex =
     [(''curl.advisories.yaml'',
       \<lparr>SchemaVersion = ''1'', Package = \<lparr>Name = ''curl''\<rparr>,
        Advisories =
          [\<lparr>ID = ''CVE-2024-0001'', Aliases = [''GHSA-aaaa-bbbb-cccc''],
            Events = [fixedEvent 5 ''8.4.0'']\<rparr>,
           pendingAdvisory]\<rparr>)]
   \<and> Update ''2'' updateRequest failingIndex =
     (Some (UnableToUpdateSchemaVersion ''curl'' WriteFailed),
      \<lparr>entries =
         [(''curl.advisories.yaml'',
           \<lparr>SchemaVersion = ''1'', Package = \<lparr>Name = ''curl''\<rparr>,
            Advisories =
              [\<lparr>ID = ''CVE-2024-0001'', Aliases = [''GHSA-aaaa-bbbb-cccc''],
                Events = [fixedEvent 5 ''8.4.0'', falsePositiveEvent 9]\<rparr>,
               pendingAdvisory]\<rparr>)],
       pending = []\<rparr>)"
  by (simp add: request_defs example_defs update_defs)

text \<open>
  C2, amended. On an index with exactly one document for the package, \<^verbatim>\<open>Update\<close> runs two
  transactions. The first looks the advisory up, fails when the ID is absent, appends the
  event, replaces the advisory and sorts by ID: when it fails, the documents are unchanged.
  The second upgrades the schema version: when it fails, the document holds the result of
  the first transaction under its old schema version. When both go through, the document
  holds that result under the current schema version.
\<close>

theorem update_runs_two_transactions:
  assumes "Len (WhereName index (Select index) (Request.Package req)) = 1"
  shows "\<exists>path doc.
      WhereName index (Select index) (Request.Package req) = [path]
    \<and> map_of (entries index) path = Some doc
    \<and> (Advisories_Get (Advisories doc) (VulnerabilityID req) = None \<longrightarrow>
         Update version req index =
           (Some (UnableToAddEntry (VulnerabilityID req) (Request.Package req)
                    (AdvisoryDoesNotExist (VulnerabilityID req))), index))
    \<and> ((\<exists>e. fst (Update version req index) =
               Some (UnableToAddEntry (VulnerabilityID req) (Request.Package req) e) \<and>
             entries (snd (Update version req index)) = entries index)
       \<or> (\<exists>advisories. updateTransform req doc = Inr advisories \<and>
             fst (Update version req index) =
               Some (UnableToUpdateSchemaVersion (Request.Package req) WriteFailed) \<and>
             entries (snd (Update version req index)) =
               put path (doc\<lparr>Advisories := advisories\<rparr>) (entries index))
       \<or> (\<exists>advisories. updateTransform req doc = Inr advisories \<and>
             fst (Update version req index) = None \<and>
             entries (snd (Update version req index)) =
               put path (doc\<lparr>Advisories := advisories, SchemaVersion := version\<rparr>)
                 (entries index)))"
proof -
  from selection_single [OF assms] obtain path doc
    where sel: "WhereName index (Select index) (Request.Package req) = [path]"
      and doc: "map_of (entries index) path = Some doc"
    by auto
  note unfold = Update_unfold [OF sel doc, of version]
  have absent: "Advisories_Get (Advisories doc) (VulnerabilityID req) = None \<longrightarrow>
      Update version req index =
        (Some (UnableToAddEntry (VulnerabilityID req) (Request.Package req)
                 (AdvisoryDoesNotExist (VulnerabilityID req))), index)"
    using unfold by (auto simp: transactions_def updateTransform_absent)
  obtain r index' where run: "transactions (updateTransform req) version path doc index = (r, index')"
    by (cases "transactions (updateTransform req) version path doc index")
  from transactions_cases [of "updateTransform req" version path doc index] run
  have "(\<exists>e. r = (Some e, False) \<and> entries index' = entries index)
      \<or> (\<exists>advisories. updateTransform req doc = Inr advisories \<and> r = (Some WriteFailed, True) \<and>
            entries index' = put path (doc\<lparr>Advisories := advisories\<rparr>) (entries index))
      \<or> (\<exists>advisories. updateTransform req doc = Inr advisories \<and> r = (None, True) \<and>
            entries index' =
              put path (doc\<lparr>Advisories := advisories, SchemaVersion := version\<rparr>) (entries index))"
    by simp
  with unfold run have outcomes:
    "(\<exists>e. fst (Update version req index) =
               Some (UnableToAddEntry (VulnerabilityID req) (Request.Package req) e) \<and>
             entries (snd (Update version req index)) = entries index)
       \<or> (\<exists>advisories. updateTransform req doc = Inr advisories \<and>
             fst (Update version req index) =
               Some (UnableToUpdateSchemaVersion (Request.Package req) WriteFailed) \<and>
             entries (snd (Update version req index)) =
               put path (doc\<lparr>Advisories := advisories\<rparr>) (entries index))
       \<or> (\<exists>advisories. updateTransform req doc = Inr advisories \<and>
             fst (Update version req index) = None \<and>
             entries (snd (Update version req index)) =
               put path (doc\<lparr>Advisories := advisories, SchemaVersion := version\<rparr>)
                 (entries index))"
    by auto
  show ?thesis
    by (rule exI [of _ path], rule exI [of _ doc])
       (rule conjI, rule sel, rule conjI, rule doc, rule conjI, rule absent, rule outcomes)
qed

theorem update_runs_two_transactions_witness:
  "Len (WhereName failingIndex (Select failingIndex) (Request.Package updateRequest)) = 1
   \<and> fst (Update ''2'' updateRequest failingIndex) =
       Some (UnableToUpdateSchemaVersion ''curl'' WriteFailed)
   \<and> (\<exists>path doc advisories.
         WhereName failingIndex (Select failingIndex) (Request.Package updateRequest) = [path]
       \<and> map_of (entries failingIndex) path = Some doc
       \<and> updateTransform updateRequest doc = Inr advisories
       \<and> entries (snd (Update ''2'' updateRequest failingIndex)) =
           put path (doc\<lparr>Advisories := advisories\<rparr>) (entries failingIndex))
   \<and> Len (WhereName curlIndex (Select curlIndex) (Request.Package absentRequest)) = 1
   \<and> Advisories_Get (Advisories curlDocument) (VulnerabilityID absentRequest) = None
   \<and> Update ''2'' absentRequest curlIndex =
       (Some (UnableToAddEntry ''CVE-2024-9999'' ''curl'' (AdvisoryDoesNotExist ''CVE-2024-9999'')),
        curlIndex)"
proof -
  have n: "Len (WhereName failingIndex (Select failingIndex) (Request.Package updateRequest)) = 1"
    by (simp add: request_defs example_defs update_defs)
  have f: "fst (Update ''2'' updateRequest failingIndex) =
      Some (UnableToUpdateSchemaVersion ''curl'' WriteFailed)"
    by (simp add: request_defs example_defs update_defs)
  from update_runs_two_transactions [OF n, of "''2''"] f
  have first: "\<exists>path doc advisories.
         WhereName failingIndex (Select failingIndex) (Request.Package updateRequest) = [path]
       \<and> map_of (entries failingIndex) path = Some doc
       \<and> updateTransform updateRequest doc = Inr advisories
       \<and> entries (snd (Update ''2'' updateRequest failingIndex)) =
           put path (doc\<lparr>Advisories := advisories\<rparr>) (entries failingIndex)"
    by auto
  have n': "Len (WhereName curlIndex (Select curlIndex) (Request.Package absentRequest)) = 1"
    by (simp add: request_defs example_defs update_defs)
  have sel: "WhereName curlIndex (Select curlIndex) (Request.Package absentRequest) =
      [''curl.advisories.yaml'']"
    by (simp add: request_defs example_defs update_defs)
  have doc: "map_of (entries curlIndex) ''curl.advisories.yaml'' = Some curlDocument"
    by (simp add: curlIndex_def)
  have g: "Advisories_Get (Advisories curlDocument) (VulnerabilityID absentRequest) = None"
    by (simp add: request_defs example_defs Advisories_Get_def)
  have r: "VulnerabilityID absentRequest = ''CVE-2024-9999''"
      "Request.Package absentRequest = ''curl''"
    by (simp_all add: absentRequest_def)
  from update_runs_two_transactions [OF n', of "''2''"] sel doc g
  have second: "Update ''2'' absentRequest curlIndex =
       (Some (UnableToAddEntry ''CVE-2024-9999'' ''curl'' (AdvisoryDoesNotExist ''CVE-2024-9999'')),
        curlIndex)"
    unfolding r by auto
  from n f first n' g second show ?thesis by blast
qed

text \<open>
  C3. \<^verbatim>\<open>Update\<close> does not validate the request. The request without an event, which
  \<^verbatim>\<open>Validate\<close> rejects and \<^verbatim>\<open>Create\<close> turns down, goes through \<^verbatim>\<open>Update\<close>: the zero event
  is appended to the advisory and the document is written.
\<close>

theorem update_does_not_validate:
  "Validate aliasOK zeroEventRequest = Some (InvalidRequest [FieldEvent])
   \<and> Create aliasOK ''2'' zeroEventRequest curlIndex =
       (Some (InvalidRequest [FieldEvent]), curlIndex)
   \<and> Update ''2'' zeroEventRequest curlIndex =
     (None,
      \<lparr>entries =
         [(''curl.advisories.yaml'',
           \<lparr>SchemaVersion = ''2'', Package = \<lparr>Name = ''curl''\<rparr>,
            Advisories =
              [\<lparr>ID = ''CVE-2024-0001'', Aliases = [''GHSA-aaaa-bbbb-cccc''],
                Events = [fixedEvent 5 ''8.4.0'',
                          \<lparr>Timestamp = 0, Type = EventTypeOther [], Data = NoData\<rparr>]\<rparr>,
               pendingAdvisory]\<rparr>)],
       pending = []\<rparr>)"
  by (simp add: request_defs example_defs update_defs)

section \<open>The latest event of an advisory\<close>

lemma sorted_le_last: "sorted (map f ys) \<Longrightarrow> y \<in> set ys \<Longrightarrow> f y \<le> f (last ys)"
  by (induction ys) (auto split: if_splits)

lemma last_filter_last: "xs \<noteq> [] \<Longrightarrow> P (last xs) \<Longrightarrow> last (filter P xs) = last xs"
  by (induction xs rule: rev_induct) auto

text \<open>
  The last element of a stable sort is the element inserted last among those with the
  greatest key.
\<close>

lemma last_sort_key:
  assumes "xs \<noteq> []"
  shows "last (sort_key f xs) = last (filter (\<lambda>x. f x = Max (f ` set xs)) xs)"
proof -
  let ?ys = "sort_key f xs"
  have ne: "?ys \<noteq> []"
    using assms by (metis length_sort length_0_conv)
  have "f (last ?ys) = Max (f ` set ?ys)"
  proof (rule sym, rule Max_eqI)
    show "finite (f ` set ?ys)" by simp
    show "\<And>y. y \<in> f ` set ?ys \<Longrightarrow> y \<le> f (last ?ys)"
      using sorted_le_last [of f ?ys] by auto
    show "f (last ?ys) \<in> f ` set ?ys"
      using ne by (metis imageI last_in_set)
  qed
  then have top: "f (last ?ys) = Max (f ` set xs)" by simp
  have "last ?ys = last (filter (\<lambda>x. f x = Max (f ` set xs)) ?ys)"
    using top ne by (simp add: last_filter_last)
  also have "\<dots> = last (filter (\<lambda>x. f x = Max (f ` set xs)) xs)"
    by (simp add: sort_key_stable)
  finally show ?thesis .
qed

lemma index_at_last: "xs \<noteq> [] \<Longrightarrow> index_at xs (int (length xs) - 1) = Inr (last xs)"
  by (cases xs rule: rev_cases) (auto simp: index_at_def nth_append)

lemma SortedEvents_not_Nil: "Events advisory \<noteq> [] \<Longrightarrow> SortedEvents advisory \<noteq> []"
  by (metis SortedEvents_def length_sort length_0_conv)

lemma advisoryBody_latest:
  assumes "Events advisory \<noteq> []"
  shows "advisoryBody NAK advisory secfixes =
           switchLatest NAK (ID advisory) (last (SortedEvents advisory)) secfixes"
proof -
  have "index_at (SortedEvents advisory) (int (length (Events advisory)) - 1) =
      Inr (last (SortedEvents advisory))"
    using index_at_last [OF SortedEvents_not_Nil [OF assms]] by (simp add: SortedEvents_def)
  with assms show ?thesis by (simp add: advisoryBody_def)
qed

text \<open>
  C1. For an advisory with at least one event, the exporter reads the last event of the
  events sorted by timestamp. That event is the one inserted last among the events with the
  greatest timestamp, so ties are broken by insertion order alone. What the advisory adds to
  the secfixes is what the \<^verbatim>\<open>switch\<close> makes of that one event: the advisory whose history
  is cut down to its latest event adds the same.
\<close>

theorem latest_event_determines_status:
  assumes "Events advisory \<noteq> []"
  shows "let latest = last (filter (\<lambda>e. Timestamp e = Max (Timestamp ` set (Events advisory)))
                              (Events advisory))
         in index_at (SortedEvents advisory) (int (length (Events advisory)) - 1) = Inr latest
          \<and> advisoryBody NAK advisory secfixes = switchLatest NAK (ID advisory) latest secfixes
          \<and> advisoryBody NAK advisory secfixes =
              advisoryBody NAK (advisory\<lparr>Events := [latest]\<rparr>) secfixes"
proof -
  let ?latest = "last (filter (\<lambda>e. Timestamp e = Max (Timestamp ` set (Events advisory)))
                         (Events advisory))"
  have l: "last (SortedEvents advisory) = ?latest"
    using assms by (simp add: SortedEvents_def last_sort_key)
  have a: "index_at (SortedEvents advisory) (int (length (Events advisory)) - 1) = Inr ?latest"
    using index_at_last [OF SortedEvents_not_Nil [OF assms]] l by (simp add: SortedEvents_def)
  have b: "advisoryBody NAK advisory secfixes = switchLatest NAK (ID advisory) ?latest secfixes"
    using advisoryBody_latest [OF assms] l by simp
  have c: "advisoryBody NAK (advisory\<lparr>Events := [?latest]\<rparr>) secfixes =
      switchLatest NAK (ID advisory) ?latest secfixes"
    by (simp add: advisoryBody_def SortedEvents_def index_at_def)
  from a b c show ?thesis by (simp add: Let_def)
qed

theorem latest_event_determines_status_witness:
  "Events historyAdvisory \<noteq> []
   \<and> index_at (SortedEvents historyAdvisory) (int (length (Events historyAdvisory)) - 1) =
       Inr (fixedEvent 7 ''8.5.0'')
   \<and> advisoryBody ''0'' historyAdvisory [] =
       switchLatest ''0'' ''CVE-2024-0001'' (fixedEvent 7 ''8.5.0'') []"
  using latest_event_determines_status [of historyAdvisory "''0''" "[]"]
  by (simp add: historyAdvisory_def fixedEvent_def falsePositiveEvent_def pendingEvent_def Let_def)

section \<open>The status mapping\<close>

lemma secfixesOf_Nil: "secfixesOf [] key = []"
  by (simp add: secfixesOf_def)

lemma secfixesOf_appendTo:
  "secfixesOf (appendTo key vulnID secfixes) k =
     (if k = key then secfixesOf secfixes key @ [vulnID] else secfixesOf secfixes k)"
  by (induction secfixes) (auto simp: secfixesOf_def)

text \<open>
  C7, as the claim states it, fails. An advisory whose latest event is of another kind than
  \<^verbatim>\<open>Fixed\<close> and \<^verbatim>\<open>FalsePositiveDetermination\<close> gets no marker: it adds nothing to the
  secfixes, and the exported package lists only the fixed advisory.
\<close>

theorem other_kinds_not_exported_counterexample:
  "advisoryBody ''0'' pendingAdvisory [] = Inr []
   \<and> snd (BuildSecurityDatabase ''0'' (exportOptions [curlIndex])) =
       Inr \<lparr>APKURL = apkURL, Archs = [''x86_64''], Repo = ''os'',
            URLPrefix = ''https://packages.example'',
            Packages = [\<lparr>PkgName = ''curl'', PkgSecfixes = [(''8.4.0'', [''CVE-2024-0001''])]\<rparr>]\<rparr>"
  by (simp add: example_defs exporter_defs)

text \<open>
  C7, amended. The advisory whose latest event is tagged \<^verbatim>\<open>Fixed\<close> and carries a fixed
  version is appended to the group of that version; the one whose latest event is a
  false-positive determination is appended to the group of the NAK marker; no other group
  changes. An advisory whose latest event is of any other kind leaves the secfixes as they
  are.
\<close>

theorem status_mapping:
  assumes "Events advisory \<noteq> []"
  shows "let latest = last (SortedEvents advisory) in
     (\<forall>version. Type latest = EventTypeFixed \<and> Data latest = Fixed version \<longrightarrow>
        (\<exists>secfixes'. advisoryBody NAK advisory secfixes = Inr secfixes' \<and>
           secfixesOf secfixes' version = secfixesOf secfixes version @ [ID advisory] \<and>
           (\<forall>key. key \<noteq> version \<longrightarrow> secfixesOf secfixes' key = secfixesOf secfixes key)))
   \<and> (Type latest = EventTypeFalsePositiveDetermination \<longrightarrow>
        (\<exists>secfixes'. advisoryBody NAK advisory secfixes = Inr secfixes' \<and>
           secfixesOf secfixes' NAK = secfixesOf secfixes NAK @ [ID advisory] \<and>
           (\<forall>key. key \<noteq> NAK \<longrightarrow> secfixesOf secfixes' key = secfixesOf secfixes key)))
   \<and> (\<forall>kind. Type latest = EventTypeOther kind \<longrightarrow>
        advisoryBody NAK advisory secfixes = Inr secfixes)"
  using advisoryBody_latest [OF assms, of NAK secfixes]
  by (auto simp: Let_def switchLatest_def secfixesOf_appendTo)

theorem status_mapping_witness:
  "Events fixedAdvisory \<noteq> [] \<and> Events falsePositiveAdvisory \<noteq> [] \<and> Events pendingAdvisory \<noteq> []
   \<and> last (SortedEvents fixedAdvisory) = fixedEvent 5 ''8.4.0''
   \<and> last (SortedEvents falsePositiveAdvisory) = falsePositiveEvent 2
   \<and> last (SortedEvents pendingAdvisory) = pendingEvent 4
   \<and> (\<exists>secfixes'. advisoryBody ''0'' fixedAdvisory [] = Inr secfixes' \<and>
         secfixesOf secfixes' ''8.4.0'' = [''CVE-2024-0001''])
   \<and> (\<exists>secfixes'. advisoryBody ''0'' falsePositiveAdvisory [] = Inr secfixes' \<and>
         secfixesOf secfixes' ''0'' = [''CVE-2024-0003''])
   \<and> advisoryBody ''0'' pendingAdvisory [] = Inr []"
proof -
  have ne: "Events fixedAdvisory \<noteq> []" "Events falsePositiveAdvisory \<noteq> []"
      "Events pendingAdvisory \<noteq> []"
    by (simp_all add: example_defs)
  have l: "last (SortedEvents fixedAdvisory) = fixedEvent 5 ''8.4.0''"
      "last (SortedEvents falsePositiveAdvisory) = falsePositiveEvent 2"
      "last (SortedEvents pendingAdvisory) = pendingEvent 4"
    by (simp_all add: example_defs SortedEvents_def)
  have a: "\<exists>secfixes'. advisoryBody ''0'' fixedAdvisory [] = Inr secfixes' \<and>
         secfixesOf secfixes' ''8.4.0'' = [''CVE-2024-0001'']"
    using status_mapping [OF ne(1), of "''0''" "[]"] l(1)
    by (auto simp: Let_def fixedEvent_def fixedAdvisory_def secfixesOf_Nil)
  have b: "\<exists>secfixes'. advisoryBody ''0'' falsePositiveAdvisory [] = Inr secfixes' \<and>
         secfixesOf secfixes' ''0'' = [''CVE-2024-0003'']"
    using status_mapping [OF ne(2), of "''0''" "[]"] l(2)
    by (auto simp: Let_def falsePositiveEvent_def falsePositiveAdvisory_def secfixesOf_Nil)
  have c: "advisoryBody ''0'' pendingAdvisory [] = Inr []"
    using status_mapping [OF ne(3), of "''0''" "[]"] l(3)
    by (simp add: Let_def pendingEvent_def)
  from ne l a b c show ?thesis by simp
qed

section \<open>Panics of the exporter\<close>

lemma switchLatest_error: "switchLatest NAK v e sf = Inl err \<Longrightarrow> err = PanicTypeAssertion"
  by (auto simp: switchLatest_def split: event_type.splits event_data.splits)

lemma advisoryBody_error: "advisoryBody NAK a sf = Inl err \<Longrightarrow> err = PanicTypeAssertion"
proof (cases "Events a = []")
  case True
  assume "advisoryBody NAK a sf = Inl err"
  with True show ?thesis by (simp add: advisoryBody_def)
next
  case False
  assume "advisoryBody NAK a sf = Inl err"
  with advisoryBody_latest [OF False] show ?thesis by (auto dest: switchLatest_error)
qed

lemma advisoriesLoop_error: "advisoriesLoop NAK advs sf = Inl err \<Longrightarrow> err = PanicTypeAssertion"
  by (induction advs arbitrary: sf) (auto split: sum.splits dest: advisoryBody_error)


lemma documentBody_error: "snd (documentBody NAK doc) = Inl err \<Longrightarrow> err = PanicTypeAssertion"
  by (auto simp: documentBody_def Let_def split: sum.splits if_splits dest: advisoriesLoop_error)

lemma documentsLoop_error:
  "snd (documentsLoop NAK es acc) = Inl err \<Longrightarrow> err = PanicTypeAssertion"
proof (induction es arbitrary: acc)
  case Nil
  then show ?case by simp
next
  case (Cons d es)
  obtain d' r where body: "documentBody NAK d = (d', r)" by (cases "documentBody NAK d")
  show ?case
  proof (cases r)
    case (Inl e)
    with Cons.prems body documentBody_error [of NAK d e] show ?thesis by simp
  next
    case (Inr opt)
    show ?thesis
    proof (cases opt)
      case None
      with Cons.prems body Inr Cons.IH [of acc] show ?thesis
        by (simp split: prod.splits)
    next
      case (Some pe)
      with Cons.prems body Inr Cons.IH [of "acc @ [pe]"] show ?thesis
        by (simp split: prod.splits)
    qed
  qed
qed

lemma indicesLoop_error:
  "snd (indicesLoop NAK indices acc) = Inl err \<Longrightarrow>
     err = PanicTypeAssertion \<or> err = ErrNoPackageSecurityData"
proof (induction indices arbitrary: acc)
  case Nil
  then show ?case by simp
next
  case (Cons index indices)
  obtain es' r where loop: "documentsLoop NAK (Configurations index) [] = (es', r)"
    by (cases "documentsLoop NAK (Configurations index) []")
  show ?case
  proof (cases r)
    case (Inl e)
    with Cons.prems loop documentsLoop_error [of NAK "Configurations index" "[]" e] show ?thesis by simp
  next
    case (Inr pes)
    with Cons.prems loop Cons.IH [of "acc @ pes"] show ?thesis
      by (simp split: prod.splits if_splits)
  qed
qed

lemma BuildSecurityDatabase_error:
  "snd (BuildSecurityDatabase NAK opts) = Inl err \<Longrightarrow>
     err = PanicTypeAssertion \<or> err = ErrNoPackageSecurityData"
  using indicesLoop_error [of NAK "AdvisoryDocIndices opts" "[]" err]
  by (auto simp: BuildSecurityDatabase_def split: prod.splits sum.splits)

lemma advisoryBody_ok:
  assumes "latestFixedHasVersion a"
  shows "\<exists>sf'. advisoryBody NAK a sf = Inr sf'"
proof (cases "Events a = []")
  case True
  then show ?thesis by (simp add: advisoryBody_def)
next
  case False
  with assms advisoryBody_latest [OF False, of NAK sf] show ?thesis
    by (auto simp: latestFixedHasVersion_def switchLatest_def Let_def
             split: event_type.splits event_data.splits)
qed

lemma advisoriesLoop_ok:
  "\<forall>a\<in>set advs. latestFixedHasVersion a \<Longrightarrow> \<exists>sf'. advisoriesLoop NAK advs sf = Inr sf'"
proof (induction advs arbitrary: sf)
  case Nil
  then show ?case by simp
next
  case (Cons a advs)
  from Cons.prems obtain sf1 where "advisoryBody NAK a sf = Inr sf1"
    using advisoryBody_ok [of a NAK sf] by auto
  with Cons.IH [of sf1] Cons.prems show ?case by simp
qed

lemma documentBody_ok:
  assumes "\<forall>a\<in>set (Advisories doc). latestFixedHasVersion a"
  shows "\<exists>r. snd (documentBody NAK doc) = Inr r"
proof -
  from assms have "\<forall>a\<in>set (sort_key ID (Advisories doc)). latestFixedHasVersion a" by simp
  from advisoriesLoop_ok [OF this, of NAK "[]"] show ?thesis
    by (auto simp: documentBody_def Let_def)
qed

lemma documentsLoop_ok:
  "\<forall>doc\<in>set es. \<forall>a\<in>set (Advisories doc). latestFixedHasVersion a \<Longrightarrow>
     \<exists>r. snd (documentsLoop NAK es acc) = Inr r"
proof (induction es arbitrary: acc)
  case Nil
  then show ?case by simp
next
  case (Cons d es)
  from Cons.prems have "\<forall>a\<in>set (Advisories d). latestFixedHasVersion a" by simp
  from documentBody_ok [OF this, of NAK] obtain d' r where body: "documentBody NAK d = (d', Inr r)"
    by (cases "documentBody NAK d") auto
  from Cons.prems have rest: "\<forall>doc\<in>set es. \<forall>a\<in>set (Advisories doc). latestFixedHasVersion a"
    by simp
  show ?case
  proof (cases r)
    case None
    with body Cons.IH [OF rest, of acc] show ?thesis by (auto split: prod.splits)
  next
    case (Some pe)
    with body Cons.IH [OF rest, of "acc @ [pe]"] show ?thesis by (auto split: prod.splits)
  qed
qed

lemma indicesLoop_no_type_panic:
  "\<forall>index\<in>set indices. \<forall>doc\<in>set (Configurations index). \<forall>a\<in>set (Advisories doc).
      latestFixedHasVersion a \<Longrightarrow>
     snd (indicesLoop NAK indices acc) \<noteq> Inl PanicTypeAssertion"
proof (induction indices arbitrary: acc)
  case Nil
  then show ?case by simp
next
  case (Cons index indices)
  from Cons.prems have
    "\<forall>doc\<in>set (Configurations index). \<forall>a\<in>set (Advisories doc). latestFixedHasVersion a"
    by simp
  from documentsLoop_ok [OF this, of NAK "[]"] obtain es' pes
    where loop: "documentsLoop NAK (Configurations index) [] = (es', Inr pes)"
    by (cases "documentsLoop NAK (Configurations index) []") auto
  from Cons.prems have rest: "\<forall>index\<in>set indices. \<forall>doc\<in>set (Configurations index).
      \<forall>a\<in>set (Advisories doc). latestFixedHasVersion a"
    by simp
  from loop Cons.IH [OF rest, of "acc @ pes"] show ?case
    by (auto split: prod.splits)
qed

text \<open>
  C10. The index \<^verbatim>\<open>sortedEvents[len(advisory.Events)-1]\<close> is in bounds for every advisory
  that passes the guard, so neither the body nor the export ever panics on it. When the
  latest event of every advisory tagged \<^verbatim>\<open>Fixed\<close> carries a \<^verbatim>\<open>v2.Fixed\<close> payload, the type
  assertion does not panic either.
\<close>

theorem type_assertion_and_index_safe:
  "(Events advisory \<noteq> [] \<longrightarrow>
      (\<exists>latest. index_at (SortedEvents advisory) (int (length (Events advisory)) - 1) = Inr latest))
   \<and> advisoryBody NAK advisory secfixes \<noteq> Inl PanicIndexOutOfRange
   \<and> (latestFixedHasVersion advisory \<longrightarrow> advisoryBody NAK advisory secfixes \<noteq> Inl PanicTypeAssertion)
   \<and> snd (BuildSecurityDatabase NAK opts) \<noteq> Inl PanicIndexOutOfRange
   \<and> ((\<forall>index\<in>set (AdvisoryDocIndices opts). \<forall>doc\<in>set (Configurations index).
         \<forall>a\<in>set (Advisories doc). latestFixedHasVersion a)
       \<longrightarrow> snd (BuildSecurityDatabase NAK opts) \<noteq> Inl PanicTypeAssertion)"
proof -
  have a: "Events advisory \<noteq> [] \<longrightarrow>
      (\<exists>latest. index_at (SortedEvents advisory) (int (length (Events advisory)) - 1) = Inr latest)"
    using index_at_last [OF SortedEvents_not_Nil, of advisory] by (auto simp: SortedEvents_def)
  have b: "advisoryBody NAK advisory secfixes \<noteq> Inl PanicIndexOutOfRange"
    using advisoryBody_error [of NAK advisory secfixes PanicIndexOutOfRange] by auto
  have c: "latestFixedHasVersion advisory \<longrightarrow>
      advisoryBody NAK advisory secfixes \<noteq> Inl PanicTypeAssertion"
    using advisoryBody_ok [of advisory NAK secfixes] by auto
  have d: "snd (BuildSecurityDatabase NAK opts) \<noteq> Inl PanicIndexOutOfRange"
    using BuildSecurityDatabase_error [of NAK opts PanicIndexOutOfRange] by auto
  have e: "(\<forall>index\<in>set (AdvisoryDocIndices opts). \<forall>doc\<in>set (Configurations index).
         \<forall>a\<in>set (Advisories doc). latestFixedHasVersion a)
       \<longrightarrow> snd (BuildSecurityDatabase NAK opts) \<noteq> Inl PanicTypeAssertion"
  proof
    assume "\<forall>index\<in>set (AdvisoryDocIndices opts). \<forall>doc\<in>set (Configurations index).
         \<forall>a\<in>set (Advisories doc). latestFixedHasVersion a"
    from indicesLoop_no_type_panic [OF this, of NAK "[]"]
    show "snd (BuildSecurityDatabase NAK opts) \<noteq> Inl PanicTypeAssertion"
      by (auto simp: BuildSecurityDatabase_def split: prod.splits sum.splits)
  qed
  from a b c d e show ?thesis by blast
qed

theorem type_assertion_and_index_safe_witness:
  "Events historyAdvisory \<noteq> [] \<and> latestFixedHasVersion historyAdvisory
   \<and> (\<exists>latest. index_at (SortedEvents historyAdvisory) (int (length (Events historyAdvisory)) - 1) =
         Inr latest)
   \<and> advisoryBody ''0'' historyAdvisory [] \<noteq> Inl PanicTypeAssertion
   \<and> AdvisoryDocIndices (exportOptions [curlIndex]) = [curlIndex]
   \<and> Configurations curlIndex = [curlDocument]
   \<and> Advisories curlDocument = [fixedAdvisory, pendingAdvisory]
   \<and> latestFixedHasVersion fixedAdvisory \<and> latestFixedHasVersion pendingAdvisory
   \<and> snd (BuildSecurityDatabase ''0'' (exportOptions [curlIndex])) \<noteq> Inl PanicTypeAssertion"
proof -
  have a: "Events historyAdvisory \<noteq> []"
    by (simp add: example_defs)
  have b: "latestFixedHasVersion historyAdvisory"
    by (simp add: latestFixedHasVersion_def example_defs SortedEvents_def)
  have c: "AdvisoryDocIndices (exportOptions [curlIndex]) = [curlIndex]"
      "Configurations curlIndex = [curlDocument]"
      "Advisories curlDocument = [fixedAdvisory, pendingAdvisory]"
    by (simp_all add: exportOptions_def curlIndex_def curlDocument_def Configurations_def)
  have d: "latestFixedHasVersion fixedAdvisory" "latestFixedHasVersion pendingAdvisory"
    by (simp_all add: latestFixedHasVersion_def example_defs SortedEvents_def)
  from c d have e: "\<forall>index\<in>set (AdvisoryDocIndices (exportOptions [curlIndex])).
        \<forall>doc\<in>set (Configurations index). \<forall>a\<in>set (Advisories doc). latestFixedHasVersion a"
    by simp
  from type_assertion_and_index_safe
    [of historyAdvisory "''0''" "[]" "exportOptions [curlIndex]"] a b e
  have "(\<exists>latest. index_at (SortedEvents historyAdvisory)
            (int (length (Events historyAdvisory)) - 1) = Inr latest)
      \<and> advisoryBody ''0'' historyAdvisory [] \<noteq> Inl PanicTypeAssertion
      \<and> snd (BuildSecurityDatabase ''0'' (exportOptions [curlIndex])) \<noteq> Inl PanicTypeAssertion"
    by blast
  with a b c d show ?thesis by simp
qed

text \<open>The precondition is needed: a latest event tagged \<^verbatim>\<open>Fixed\<close> without its payload panics.\<close>

lemma mistagged_latest_panics:
  "\<not> latestFixedHasVersion mistaggedAdvisory
   \<and> advisoryBody ''0'' mistaggedAdvisory [] = Inl PanicTypeAssertion"
  by (simp add: mistaggedAdvisory_def latestFixedHasVersion_def exporter_defs)

section \<open>What the exporter leaves of the index\<close>








section \<open>What the exporter excludes\<close>

lemma advisoryBody_eventless: "Events a = [] \<Longrightarrow> advisoryBody NAK a sf = Inr sf"
  by (simp add: advisoryBody_def)

lemma advisoriesLoop_filter:
  "advisoriesLoop NAK (filter (\<lambda>a. Events a \<noteq> []) advs) sf = advisoriesLoop NAK advs sf"
  by (induction advs arbitrary: sf) (auto simp: advisoryBody_eventless split: sum.splits)

lemma snd_documentBody_filter:
  "snd (documentBody NAK (doc\<lparr>Advisories := filter (\<lambda>a. Events a \<noteq> []) (Advisories doc)\<rparr>)) =
   snd (documentBody NAK doc)"
proof (cases "filter (\<lambda>a. Events a \<noteq> []) (Advisories doc) = []")
  case True
  then have "filter (\<lambda>a. Events a \<noteq> []) (sort_key ID (Advisories doc)) = []"
    by (simp add: filter_sort)
  then have "advisoriesLoop NAK (sort_key ID (Advisories doc)) [] = Inr []"
    using advisoriesLoop_filter [of NAK "sort_key ID (Advisories doc)" "[]"] by simp
  with True show ?thesis by (simp add: documentBody_def Let_def)
next
  case False
  then have "Advisories doc \<noteq> []" by auto
  with False show ?thesis
    using advisoriesLoop_filter [of NAK "sort_key ID (Advisories doc)" "[]"]
    by (simp add: documentBody_def Let_def filter_sort [symmetric] split: sum.splits)
qed

lemma snd_documentsLoop_cong:
  "\<forall>d. snd (documentBody NAK (g d)) = snd (documentBody NAK d) \<Longrightarrow>
   snd (documentsLoop NAK (map g docs) acc) = snd (documentsLoop NAK docs acc)"
proof (induction docs arbitrary: acc)
  case Nil
  then show ?case by simp
next
  case (Cons d docs)
  obtain d1 r where body: "documentBody NAK d = (d1, r)" by (cases "documentBody NAK d")
  with Cons.prems obtain d2 where body': "documentBody NAK (g d) = (d2, r)"
    by (cases "documentBody NAK (g d)") (metis snd_conv)
  show ?case
  proof (cases r)
    case (Inl e)
    with body body' show ?thesis by simp
  next
    case (Inr opt)
    show ?thesis
    proof (cases opt)
      case None
      with body body' Inr Cons.IH [OF Cons.prems, of acc] show ?thesis
        by (auto split: prod.splits)
    next
      case (Some pe)
      with body body' Inr Cons.IH [OF Cons.prems, of "acc @ [pe]"] show ?thesis
        by (auto split: prod.splits)
    qed
  qed
qed

lemma Configurations_dropEventless:
  "Configurations (dropEventless index) =
     map (\<lambda>doc. doc\<lparr>Advisories := filter (\<lambda>a. Events a \<noteq> []) (Advisories doc)\<rparr>)
       (Configurations index)"
  by (simp add: dropEventless_def Configurations_def case_prod_unfold comp_def)

lemma snd_documentsLoop_dropEventless:
  "snd (documentsLoop NAK (Configurations (dropEventless index)) acc) =
   snd (documentsLoop NAK (Configurations index) acc)"
  using snd_documentsLoop_cong
    [of NAK "\<lambda>doc. doc\<lparr>Advisories := filter (\<lambda>a. Events a \<noteq> []) (Advisories doc)\<rparr>"
      "Configurations index" acc]
  by (simp add: Configurations_dropEventless snd_documentBody_filter)

lemma snd_indicesLoop_dropEventless:
  "snd (indicesLoop NAK (map dropEventless indices) acc) = snd (indicesLoop NAK indices acc)"
proof (induction indices arbitrary: acc)
  case Nil
  then show ?case by simp
next
  case (Cons index indices)
  obtain es1 r where loop: "documentsLoop NAK (Configurations index) [] = (es1, r)"
    by (cases "documentsLoop NAK (Configurations index) []")
  with snd_documentsLoop_dropEventless [of NAK index "[]"]
  obtain es2 where loop': "documentsLoop NAK (Configurations (dropEventless index)) [] = (es2, r)"
    by (cases "documentsLoop NAK (Configurations (dropEventless index)) []") simp
  show ?case
  proof (cases r)
    case (Inl e)
    with loop loop' show ?thesis by simp
  next
    case (Inr pes)
    with loop loop' Cons.IH [of "acc @ pes"] show ?thesis
      by (auto split: prod.splits)
  qed
qed

lemma snd_BuildSecurityDatabase:
  "snd (BuildSecurityDatabase NAK opts) =
     (case snd (indicesLoop NAK (AdvisoryDocIndices opts) []) of
        Inl e \<Rightarrow> Inl e
      | Inr pes \<Rightarrow> Inr \<lparr>APKURL = apkURL, Archs = OptArchs opts, Repo = OptRepo opts,
                        URLPrefix = OptURLPrefix opts, Packages = pes\<rparr>)"
  by (simp add: BuildSecurityDatabase_def split: prod.splits sum.splits)

lemma documentBody_None_iff:
  "snd (documentBody NAK doc) = Inr None \<longleftrightarrow>
     advisoriesLoop NAK (sort_key ID (Advisories doc)) [] = Inr []"
  by (auto simp: documentBody_def Let_def split: sum.splits)

lemma documentBody_Some:
  "snd (documentBody NAK doc) = Inr (Some pe) \<Longrightarrow> PkgSecfixes pe \<noteq> []"
  by (auto simp: documentBody_def Let_def split: sum.splits if_splits)

lemma documentsLoop_nonempty:
  "snd (documentsLoop NAK es acc) = Inr pes \<Longrightarrow> \<forall>pe\<in>set acc. PkgSecfixes pe \<noteq> [] \<Longrightarrow>
     \<forall>pe\<in>set pes. PkgSecfixes pe \<noteq> []"
proof (induction es arbitrary: acc)
  case Nil
  then show ?case by simp
next
  case (Cons d es)
  obtain d' r where body: "documentBody NAK d = (d', r)" by (cases "documentBody NAK d")
  show ?case
  proof (cases r)
    case (Inl e)
    with Cons.prems body show ?thesis by simp
  next
    case (Inr opt)
    show ?thesis
    proof (cases opt)
      case None
      with Cons.prems body Inr Cons.IH [of acc] show ?thesis
        by (auto split: prod.splits)
    next
      case (Some pe)
      with body Inr documentBody_Some [of NAK d pe] have "PkgSecfixes pe \<noteq> []" by simp
      with Cons.prems(2) have acc': "\<forall>pe\<in>set (acc @ [pe]). PkgSecfixes pe \<noteq> []" by simp
      from Cons.prems(1) body Inr Some
      have "snd (documentsLoop NAK es (acc @ [pe])) = Inr pes" by (auto split: prod.splits)
      from Cons.IH [OF this acc'] show ?thesis .
    qed
  qed
qed

lemma indicesLoop_nonempty:
  "snd (indicesLoop NAK indices acc) = Inr pes \<Longrightarrow> \<forall>pe\<in>set acc. PkgSecfixes pe \<noteq> [] \<Longrightarrow>
     \<forall>pe\<in>set pes. PkgSecfixes pe \<noteq> []"
proof (induction indices arbitrary: acc)
  case Nil
  then show ?case by simp
next
  case (Cons index indices)
  obtain es' r where loop: "documentsLoop NAK (Configurations index) [] = (es', r)"
    by (cases "documentsLoop NAK (Configurations index) []")
  show ?case
  proof (cases r)
    case (Inl e)
    with Cons.prems loop show ?thesis by simp
  next
    case (Inr ipes)
    with loop documentsLoop_nonempty [of NAK "Configurations index" "[]" ipes]
    have "\<forall>pe\<in>set ipes. PkgSecfixes pe \<noteq> []" by simp
    with Cons.prems(2) have acc': "\<forall>pe\<in>set (acc @ ipes). PkgSecfixes pe \<noteq> []" by auto
    from Cons.prems(1) loop Inr
    have "snd (indicesLoop NAK indices (acc @ ipes)) = Inr pes"
      by (auto split: prod.splits if_splits)
    from Cons.IH [OF this acc'] show ?thesis .
  qed
qed

lemma indicesLoop_empty_index:
  "\<forall>i\<in>set pre. \<exists>es. indexPackageEntries NAK i = Inr es \<Longrightarrow>
   indexPackageEntries NAK index = Inr [] \<Longrightarrow>
   snd (indicesLoop NAK (pre @ index # post) acc) = Inl ErrNoPackageSecurityData"
proof (induction pre arbitrary: acc)
  case Nil
  then show ?case
    by (cases "documentsLoop NAK (Configurations index) []") (simp add: indexPackageEntries_def)
next
  case (Cons i pre)
  from Cons.prems(1) obtain es where "indexPackageEntries NAK i = Inr es" by auto
  then obtain es' where loop: "documentsLoop NAK (Configurations i) [] = (es', Inr es)"
    by (cases "documentsLoop NAK (Configurations i) []") (simp add: indexPackageEntries_def)
  from Cons.prems(1) have pre: "\<forall>i\<in>set pre. \<exists>es. indexPackageEntries NAK i = Inr es" by simp
  from loop Cons.IH [OF pre Cons.prems(2), of "acc @ es"] show ?case
    by (auto split: prod.splits)
qed

text \<open>
  C8. The export is the same when every advisory without events is removed from the indices
  first, and such an advisory leaves the secfixes as they are. A document is skipped exactly
  when its advisories add no secfixes, so every exported package has some. When an index
  contributes no package entry, and the export reached it (no index before it panicked), the
  export fails with \<^verbatim>\<open>ErrNoPackageSecurityData\<close>.
\<close>

theorem exporter_exclusions:
  "snd (BuildSecurityDatabase NAK
          (opts\<lparr>AdvisoryDocIndices := map dropEventless (AdvisoryDocIndices opts)\<rparr>)) =
     snd (BuildSecurityDatabase NAK opts)
   \<and> (Events advisory = [] \<longrightarrow> advisoryBody NAK advisory secfixes = Inr secfixes)
   \<and> (snd (documentBody NAK doc) = Inr None \<longleftrightarrow>
        advisoriesLoop NAK (sort_key ID (Advisories doc)) [] = Inr [])
   \<and> (\<forall>db. snd (BuildSecurityDatabase NAK opts) = Inr db \<longrightarrow>
          (\<forall>pe\<in>set (Packages db). PkgSecfixes pe \<noteq> []))
   \<and> (AdvisoryDocIndices opts = pre @ index # post \<and>
        (\<forall>i\<in>set pre. \<exists>es. indexPackageEntries NAK i = Inr es) \<and>
        indexPackageEntries NAK index = Inr []
        \<longrightarrow> snd (BuildSecurityDatabase NAK opts) = Inl ErrNoPackageSecurityData)"
proof -
  have a: "snd (BuildSecurityDatabase NAK
          (opts\<lparr>AdvisoryDocIndices := map dropEventless (AdvisoryDocIndices opts)\<rparr>)) =
     snd (BuildSecurityDatabase NAK opts)"
    by (simp add: snd_BuildSecurityDatabase snd_indicesLoop_dropEventless split: sum.splits)
  have b: "Events advisory = [] \<longrightarrow> advisoryBody NAK advisory secfixes = Inr secfixes"
    by (simp add: advisoryBody_eventless)
  have c: "snd (documentBody NAK doc) = Inr None \<longleftrightarrow>
        advisoriesLoop NAK (sort_key ID (Advisories doc)) [] = Inr []"
    by (rule documentBody_None_iff)
  have d: "\<forall>db. snd (BuildSecurityDatabase NAK opts) = Inr db \<longrightarrow>
          (\<forall>pe\<in>set (Packages db). PkgSecfixes pe \<noteq> [])"
  proof (intro allI impI)
    fix db
    assume "snd (BuildSecurityDatabase NAK opts) = Inr db"
    then obtain pes where "snd (indicesLoop NAK (AdvisoryDocIndices opts) []) = Inr pes"
      and "Packages db = pes"
      by (auto simp: snd_BuildSecurityDatabase split: sum.splits)
    with indicesLoop_nonempty [of NAK "AdvisoryDocIndices opts" "[]" pes]
    show "\<forall>pe\<in>set (Packages db). PkgSecfixes pe \<noteq> []" by simp
  qed
  have e: "AdvisoryDocIndices opts = pre @ index # post \<and>
        (\<forall>i\<in>set pre. \<exists>es. indexPackageEntries NAK i = Inr es) \<and>
        indexPackageEntries NAK index = Inr []
        \<longrightarrow> snd (BuildSecurityDatabase NAK opts) = Inl ErrNoPackageSecurityData"
    using indicesLoop_empty_index [of pre NAK index post "[]"]
    by (auto simp: snd_BuildSecurityDatabase)
  from a b c d e show ?thesis by blast
qed

theorem exporter_exclusions_witness:
  "Events eventlessAdvisory = []
   \<and> advisoryBody ''0'' eventlessAdvisory [(''8.4.0'', [''CVE-2024-0001''])] =
       Inr [(''8.4.0'', [''CVE-2024-0001''])]
   \<and> snd (documentBody ''0'' eventlessDocument) = Inr None
   \<and> indexPackageEntries ''0'' curlIndex =
       Inr [\<lparr>PkgName = ''curl'', PkgSecfixes = [(''8.4.0'', [''CVE-2024-0001''])]\<rparr>]
   \<and> indexPackageEntries ''0'' eventlessIndex = Inr []
   \<and> snd (BuildSecurityDatabase ''0'' (exportOptions [curlIndex, eventlessIndex])) =
       Inl ErrNoPackageSecurityData
   \<and> snd (BuildSecurityDatabase ''0'' (exportOptions [curlIndex])) =
       Inr \<lparr>APKURL = apkURL, Archs = [''x86_64''], Repo = ''os'',
            URLPrefix = ''https://packages.example'',
            Packages = [\<lparr>PkgName = ''curl'', PkgSecfixes = [(''8.4.0'', [''CVE-2024-0001''])]\<rparr>]\<rparr>
   \<and> [] \<notin> set (map PkgSecfixes
                  [\<lparr>PkgName = ''curl'', PkgSecfixes = [(''8.4.0'', [''CVE-2024-0001''])]\<rparr>])"
proof -
  let ?db = "\<lparr>APKURL = apkURL, Archs = [''x86_64''], Repo = ''os'',
            URLPrefix = ''https://packages.example'',
            Packages = [\<lparr>PkgName = ''curl'', PkgSecfixes = [(''8.4.0'', [''CVE-2024-0001''])]\<rparr>]\<rparr>"
  have a: "Events eventlessAdvisory = []"
    by (simp add: example_defs)
  have c: "advisoriesLoop ''0'' (sort_key ID (Advisories eventlessDocument)) [] = Inr []"
    by (simp add: example_defs advisoryBody_def)
  have d: "indexPackageEntries ''0'' curlIndex =
       Inr [\<lparr>PkgName = ''curl'', PkgSecfixes = [(''8.4.0'', [''CVE-2024-0001''])]\<rparr>]"
    by (simp add: indexPackageEntries_def example_defs exporter_defs)
  have e: "indexPackageEntries ''0'' eventlessIndex = Inr []"
    by (simp add: indexPackageEntries_def example_defs exporter_defs)
  have f: "AdvisoryDocIndices (exportOptions [curlIndex, eventlessIndex]) =
      [curlIndex] @ eventlessIndex # []"
    by (simp add: exportOptions_def)
  note inst = exporter_exclusions [of "''0''" "exportOptions [curlIndex, eventlessIndex]"
      eventlessAdvisory "[(''8.4.0'', [''CVE-2024-0001''])]" eventlessDocument
      "[curlIndex]" eventlessIndex "[]"]
  from inst a c d e f have first:
    "advisoryBody ''0'' eventlessAdvisory [(''8.4.0'', [''CVE-2024-0001''])] =
       Inr [(''8.4.0'', [''CVE-2024-0001''])]
     \<and> snd (documentBody ''0'' eventlessDocument) = Inr None
     \<and> snd (BuildSecurityDatabase ''0'' (exportOptions [curlIndex, eventlessIndex])) =
       Inl ErrNoPackageSecurityData"
    by simp
  have g: "snd (BuildSecurityDatabase ''0'' (exportOptions [curlIndex])) = Inr ?db"
    by (simp add: example_defs exporter_defs)
  from exporter_exclusions [of "''0''" "exportOptions [curlIndex]"] g
  have "\<forall>pe\<in>set (Packages ?db). PkgSecfixes pe \<noteq> []"
    by blast
  then have second: "[] \<notin> set (map PkgSecfixes (Packages ?db))"
    by auto
  from a d e first g second show ?thesis by simp
qed

end
